theory Spec2Isabelle
  imports Complex_Main "HOL-Library.AList" "HOL-Library.Sublist"
begin

section \<open>Document processing for the banking RAG system\<close>

text \<open>
  A shallow embedding of \<^verbatim>\<open>src/rag/document_processor.py\<close>. Python strings are
  modelled as \<^typ>\<open>string\<close>; a character of the model is one of the first 256 Unicode
  code points. Exceptions are values of the type \<open>exn\<close>, a fallible computation
  returns \<open>exn + 'a\<close>. Calls of the logger are recorded as a list of log records, one
  constructor for each call site, holding the values the message is formatted from.
\<close>

subsection \<open>Strings\<close>

text \<open>
  \<^verbatim>\<open>str.lower()\<close>: on the code points below 256 the upper-case letters are
  \<open>A\<close> to \<open>Z\<close> (65 to 90) and the Latin-1 capitals 192 to 222 without the
  multiplication sign 215; each is 32 below its lower-case letter.
\<close>

definition lower_char :: "char \<Rightarrow> char" where
  "lower_char c =
     (let n = (of_char c :: nat)
      in if (65 \<le> n \<and> n \<le> 90) \<or> (192 \<le> n \<and> n \<le> 222 \<and> n \<noteq> 215)
         then char_of (n + 32) else c)"

definition lower :: "string \<Rightarrow> string" where
  "lower s = map lower_char s"

text \<open>\<^verbatim>\<open>sub in s\<close> on strings: \<open>sub\<close> occurs in \<open>s\<close> as a contiguous block.\<close>

fun contains :: "string \<Rightarrow> string \<Rightarrow> bool" where
  "contains sub [] = (sub = [])"
| "contains sub (c # cs) = (prefix sub (c # cs) \<or> contains sub cs)"

text \<open>\<^verbatim>\<open>s.endswith(e)\<close>.\<close>

definition endswith :: "string \<Rightarrow> string \<Rightarrow> bool" where
  "endswith s e = suffix e s"

subsection \<open>Paths\<close>

text \<open>
  A \<^verbatim>\<open>pathlib.Path\<close> is modelled by the string \<^verbatim>\<open>str(path)\<close> of a POSIX path,
  which pathlib keeps normalised (no trailing slash). \<^verbatim>\<open>path.name\<close> is the final
  component: what follows the last slash, and the empty string for \<^verbatim>\<open>Path('.')\<close>.
\<close>

type_synonym Path = string

definition path_name :: "Path \<Rightarrow> string" where
  "path_name p = (if p = ''.'' then [] else rev (takeWhile (\<lambda>c. c \<noteq> CHR ''/'') (rev p)))"

text \<open>
  \<^verbatim>\<open>name.rfind('.')\<close>: the index of the last dot, \<open>None\<close> for Python's \<open>-1\<close>.
\<close>

definition rfind_dot :: "string \<Rightarrow> nat option" where
  "rfind_dot name =
     (if CHR ''.'' \<in> set name
      then Some (length name - 1 - length (takeWhile (\<lambda>c. c \<noteq> CHR ''.'') (rev name)))
      else None)"

text \<open>
  \<^verbatim>\<open>path.suffix\<close> (pathlib of CPython up to 3.12):
  \<^verbatim>\<open>i = name.rfind('.'); return name[i:] if 0 < i < len(name) - 1 else ''\<close>.
\<close>

definition path_suffix :: "Path \<Rightarrow> string" where
  "path_suffix p =
     (let name = path_name p
      in case rfind_dot name of
           None \<Rightarrow> []
         | Some i \<Rightarrow> if 0 < i \<and> i + 1 < length name then drop i name else [])"

text \<open>\<^verbatim>\<open>directory / name\<close> for an entry name of the directory.\<close>

definition joinpath :: "Path \<Rightarrow> string \<Rightarrow> Path" where
  "joinpath d n = (if d = ''.'' then n else if d = ''/'' then d @ n else d @ ''/'' @ n)"

subsection \<open>Documents and metadata\<close>

text \<open>
  The values found in the metadata of a chunk are strings and integers. A Python
  \<^verbatim>\<open>dict\<close> keeps its keys in insertion order, so it is an association list;
  \<^verbatim>\<open>d[k] = v\<close> is \<^const>\<open>AList.update\<close> (an existing key keeps its place, a new
  key goes to the end) and \<^verbatim>\<open>d.update(other)\<close> stores the items of \<open>other\<close> from
  left to right.
\<close>

datatype pyval = PyStr string | PyInt int

type_synonym 'v dict = "(string \<times> 'v) list"

definition dict_update :: "('k \<times> 'v) list \<Rightarrow> ('k \<times> 'v) list \<Rightarrow> ('k \<times> 'v) list" where
  "dict_update d other = fold (\<lambda>(k, v). AList.update k v) other d"

record Document =
  page_content :: string
  metadata :: "pyval dict"

subsection \<open>Category inference\<close>

definition infer_document_type :: "string \<Rightarrow> string" where
  "infer_document_type filename =
     (let filename_lower = lower filename
      in if contains ''account'' filename_lower \<or> contains ''product'' filename_lower
           then ''account_info''
         else if contains ''fee'' filename_lower \<or> contains ''charge'' filename_lower
           then ''fees''
         else if contains ''loan'' filename_lower \<or> contains ''mortgage'' filename_lower
           then ''loans''
         else if contains ''security'' filename_lower \<or> contains ''fraud'' filename_lower
           then ''security''
         else if contains ''service'' filename_lower \<or> contains ''support'' filename_lower
           then ''customer_service''
         else ''general'')"

text \<open>
  The classification as section 4.4 of the specification words it: a table of keyword
  groups in priority order, the first group with a keyword that occurs in the source
  identifier, letter case ignored, gives the category.
\<close>

definition ci_substring :: "string \<Rightarrow> string \<Rightarrow> bool" where
  "ci_substring kw s = (\<exists>u v w. s = u @ v @ w \<and> lower v = lower kw)"

definition category_table :: "(string list \<times> string) list" where
  "category_table =
     [([''account'', ''product''], ''account_info''),
      ([''fee'', ''charge''], ''fees''),
      ([''loan'', ''mortgage''], ''loans''),
      ([''security'', ''fraud''], ''security''),
      ([''service'', ''support''], ''customer_service'')]"

fun first_match :: "(string list \<times> string) list \<Rightarrow> string \<Rightarrow> string" where
  "first_match [] s = ''general''"
| "first_match ((kws, category) # rules) s =
     (if list_ex (\<lambda>kw. ci_substring kw s) kws then category else first_match rules s)"

subsection \<open>Metadata enrichment\<close>

text \<open>
  \<^verbatim>\<open>enrich_metadata\<close> updates the metadata of each chunk object in place and returns
  the list it was given. The chunks it receives are the objects the splitter has just
  created, one object with a metadata dict of its own for each chunk, so the list is
  modelled by the list of their values.
  \<open>enrich_chunk\<close> is the body of the loop, at index \<open>i\<close> of a list of \<open>n\<close> chunks.
\<close>

definition enrich_chunk :: "Path \<Rightarrow> string \<Rightarrow> nat \<Rightarrow> nat \<Rightarrow> Document \<Rightarrow> Document" where
  "enrich_chunk source_file doc_type n i chunk =
     chunk\<lparr>metadata :=
       dict_update (metadata chunk)
         [(''source'', PyStr source_file),
          (''filename'', PyStr (path_name source_file)),
          (''doc_type'', PyStr doc_type),
          (''chunk_index'', PyInt (int i)),
          (''total_chunks'', PyInt (int n)),
          (''chunk_size'', PyInt (int (length (page_content chunk))))]\<rparr>"

definition enrich_metadata :: "Document list \<Rightarrow> Path \<Rightarrow> Document list" where
  "enrich_metadata chunks source_file =
     (let doc_type = infer_document_type (path_name source_file)
      in map (\<lambda>(i, chunk). enrich_chunk source_file doc_type (length chunks) i chunk)
           (enumerate 0 chunks))"

subsection \<open>Exceptions, log records and the outside world\<close>

text \<open>
  The exceptions are the subclasses of \<^verbatim>\<open>Exception\<close> that the module raises itself
  (\<^verbatim>\<open>FileNotFoundError\<close>, and the \<^verbatim>\<open>IndexError\<close> and \<^verbatim>\<open>KeyError\<close> of
  \<^verbatim>\<open>chunks[0].metadata['doc_type']\<close>) and the ones a loader or the splitter may raise.
\<close>

datatype exn =
    FileNotFoundError string
  | IndexError string
  | KeyError string
  | ValueError string
  | RuntimeError string

datatype level = INFO | WARNING | ERROR

datatype message =
    Initialized int int
  | UnsupportedFileType string
  | LoadedPages nat string
  | ErrorLoading string exn
  | SplitDocuments nat nat
  | FoundDocuments nat
  | Processed string nat
  | FailedToProcess string exn
  | ProcessingComplete int int

type_synonym log_record = "level \<times> message"

text \<open>
  What the module reads from its environment: whether a path exists, the entry names of a
  directory in the order the scan yields them (no entries for a path that is not a
  directory), whether the platform matches glob patterns with regard to letter case (POSIX)
  or without (Windows), and the three document loaders, each standing for the
  construction of the loader and its \<^verbatim>\<open>load()\<close>.
\<close>

record world =
  path_exists :: "Path \<Rightarrow> bool"
  scandir :: "Path \<Rightarrow> string list"
  glob_case_sensitive :: bool
  Docx2txtLoader :: "Path \<Rightarrow> exn + Document list"
  PyPDFLoader :: "Path \<Rightarrow> exn + Document list"
  TextLoader :: "Path \<Rightarrow> exn + Document list"

text \<open>
  The splitter object is known to this module by its \<^verbatim>\<open>split_documents\<close> method
  only; its class comes from an external library.
\<close>

type_synonym splitter = "Document list \<Rightarrow> exn + Document list"

record ProcessingStats =
  total_documents :: int
  total_chunks :: int
  avg_chunk_size :: rat
  document_types :: "(pyval \<times> int) list"

definition ProcessingStats_init :: ProcessingStats where
  "ProcessingStats_init =
     \<lparr>total_documents = 0, total_chunks = 0, avg_chunk_size = 0, document_types = []\<rparr>"

record DocumentProcessor =
  chunk_size :: int
  chunk_overlap :: int
  text_splitter :: splitter

subsection \<open>The document processor\<close>

definition separators :: "string list" where
  "separators = [[CHR 0x0A, CHR 0x0A], [CHR 0x0A], ''. '', '' '', []]"

text \<open>
  \<^verbatim>\<open>__init__\<close> stores the two sizes and constructs the splitter with them; the
  constructor of the splitter class is the first argument of the model. The module
  checks neither size itself.
\<close>

definition DocumentProcessor_init ::
  "(int \<Rightarrow> int \<Rightarrow> string list \<Rightarrow> exn + splitter) \<Rightarrow> int \<Rightarrow> int
     \<Rightarrow> exn + (DocumentProcessor \<times> log_record list)" where
  "DocumentProcessor_init RecursiveCharacterTextSplitter csize coverlap =
     (case RecursiveCharacterTextSplitter csize coverlap separators of
        Inl e \<Rightarrow> Inl e
      | Inr sp \<Rightarrow>
          Inr (\<lparr>chunk_size = csize, chunk_overlap = coverlap, text_splitter = sp\<rparr>,
               [(INFO, Initialized csize coverlap)]))"

definition run_loader ::
  "(Path \<Rightarrow> exn + Document list) \<Rightarrow> Path \<Rightarrow> Document list \<times> log_record list" where
  "run_loader loader file_path =
     (case loader file_path of
        Inl e \<Rightarrow> ([], [(ERROR, ErrorLoading (path_name file_path) e)])
      | Inr documents \<Rightarrow>
          (documents, [(INFO, LoadedPages (length documents) (path_name file_path))]))"

definition load_document :: "world \<Rightarrow> Path \<Rightarrow> Document list \<times> log_record list" where
  "load_document w file_path =
     (let extension = lower (path_suffix file_path)
      in if extension = ''.docx'' then run_loader (Docx2txtLoader w) file_path
         else if extension = ''.pdf'' then run_loader (PyPDFLoader w) file_path
         else if extension = ''.txt'' then run_loader (TextLoader w) file_path
         else ([], [(WARNING, UnsupportedFileType extension)]))"

definition chunk_documents ::
  "DocumentProcessor \<Rightarrow> Document list \<Rightarrow> exn + (Document list \<times> log_record list)" where
  "chunk_documents dp documents =
     (case text_splitter dp documents of
        Inl e \<Rightarrow> Inl e
      | Inr chunks \<Rightarrow>
          Inr (chunks, [(INFO, SplitDocuments (length documents) (length chunks))]))"

subsection \<open>Processing a directory\<close>

definition supported_extensions :: "string list" where
  "supported_extensions = [''.docx'', ''.pdf'', ''.txt'']"

text \<open>
  \<^verbatim>\<open>directory.glob('*' + ext)\<close> for an extension without wildcard characters: the
  entries of the directory whose name ends with the extension, compared as the platform
  compares file names.
\<close>

definition glob_matches :: "bool \<Rightarrow> string \<Rightarrow> string \<Rightarrow> bool" where
  "glob_matches case_sensitive ext name =
     (if case_sensitive then endswith name ext else endswith (lower name) (lower ext))"

definition glob :: "world \<Rightarrow> Path \<Rightarrow> string \<Rightarrow> Path list" where
  "glob w directory ext =
     map (joinpath directory)
       (filter (glob_matches (glob_case_sensitive w) ext) (scandir w directory))"

definition find_files :: "world \<Rightarrow> Path \<Rightarrow> Path list" where
  "find_files w directory = concat (map (glob w directory) supported_extensions)"

text \<open>The state of the loop over the files: the two accumulators and the log so far.\<close>

record pstate =
  all_chunks :: "Document list"
  stats :: ProcessingStats
  logs :: "log_record list"

definition emit :: "log_record list \<Rightarrow> pstate \<Rightarrow> pstate" where
  "emit rs st = st\<lparr>logs := logs st @ rs\<rparr>"

text \<open>\<^verbatim>\<open>d.get(k, 0)\<close>.\<close>

definition dict_get0 :: "('k \<times> int) list \<Rightarrow> 'k \<Rightarrow> int" where
  "dict_get0 d k = (case map_of d k of None \<Rightarrow> 0 | Some v \<Rightarrow> v)"

text \<open>
  One iteration of the loop. Every exception raised in the body is caught by the
  \<^verbatim>\<open>except Exception\<close> of the loop, which logs it and goes on with the next file; the
  assignments made before the exception stay.
\<close>

definition process_file :: "world \<Rightarrow> DocumentProcessor \<Rightarrow> Path \<Rightarrow> pstate \<Rightarrow> pstate" where
  "process_file w dp file_path st =
     (let failed = (\<lambda>e. (ERROR, FailedToProcess (path_name file_path) e));
          (documents, loaded) = load_document w file_path;
          st1 = emit loaded st
      in if documents = [] then st1
         else case chunk_documents dp documents of
           Inl e \<Rightarrow> emit [failed e] st1
         | Inr (split, splitted) \<Rightarrow>
            (let chunks = enrich_metadata split file_path;
                 st2 = (emit splitted st1)\<lparr>all_chunks := all_chunks st1 @ chunks\<rparr>;
                 st3 = st2\<lparr>stats := (stats st2)\<lparr>total_documents := total_documents (stats st2) + 1\<rparr>\<rparr>;
                 st4 = st3\<lparr>stats := (stats st3)\<lparr>total_chunks := total_chunks (stats st3) + int (length chunks)\<rparr>\<rparr>
             in (case chunks of
                  [] \<Rightarrow> emit [failed (IndexError ''list index out of range'')] st4
                | chunk # _ \<Rightarrow>
                    (case map_of (metadata chunk) ''doc_type'' of
                       None \<Rightarrow> emit [failed (KeyError ''doc_type'')] st4
                     | Some doc_type \<Rightarrow>
                         emit [(INFO, Processed (path_name file_path) (length chunks))]
                           (st4\<lparr>stats := (stats st4)\<lparr>document_types :=
                              AList.update doc_type (dict_get0 (document_types (stats st4)) doc_type + 1)
                                (document_types (stats st4))\<rparr>\<rparr>)))))"

text \<open>
  The average is a Python float: the quotient of two integers, rounded to the nearest
  double. The model keeps the exact quotient.
\<close>

definition average_chunk_size :: "Document list \<Rightarrow> rat" where
  "average_chunk_size cs =
     of_nat (sum_list (map (\<lambda>chunk. length (page_content chunk)) cs)) / of_nat (length cs)"

definition process_directory ::
  "world \<Rightarrow> DocumentProcessor \<Rightarrow> Path
     \<Rightarrow> exn + (Document list \<times> ProcessingStats \<times> log_record list)" where
  "process_directory w dp directory =
     (if \<not> path_exists w directory
      then Inl (FileNotFoundError (''Directory not found: '' @ directory))
      else
        let files = find_files w directory;
            st0 = \<lparr>all_chunks = [], stats = ProcessingStats_init,
                   logs = [(INFO, FoundDocuments (length files))]\<rparr>;
            st = fold (process_file w dp) files st0;
            stats' = (if all_chunks st \<noteq> []
                      then (stats st)\<lparr>avg_chunk_size := average_chunk_size (all_chunks st)\<rparr>
                      else stats st)
        in Inr (all_chunks st, stats',
                logs st @ [(INFO, ProcessingComplete (total_chunks stats') (total_documents stats'))]))"

subsection \<open>Vocabulary of the claims about a batch\<close>

text \<open>
  A document fails to load when the loader chosen for its extension raises; it fails to
  segment when it has loaded and the splitter raises on what was loaded.
\<close>

definition fails_to_load :: "world \<Rightarrow> Path \<Rightarrow> bool" where
  "fails_to_load w p =
     (let extension = lower (path_suffix p)
      in (extension = ''.docx'' \<and> isl (Docx2txtLoader w p))
         \<or> (extension = ''.pdf'' \<and> isl (PyPDFLoader w p))
         \<or> (extension = ''.txt'' \<and> isl (TextLoader w p)))"

definition fails_to_segment :: "world \<Rightarrow> DocumentProcessor \<Rightarrow> Path \<Rightarrow> bool" where
  "fails_to_segment w dp p =
     (fst (load_document w p) \<noteq> [] \<and> isl (text_splitter dp (fst (load_document w p))))"

definition document_fails :: "world \<Rightarrow> DocumentProcessor \<Rightarrow> Path \<Rightarrow> bool" where
  "document_fails w dp p = (fails_to_load w p \<or> fails_to_segment w dp p)"

text \<open>A log record that reports an error for the file of the given name.\<close>

fun is_error_for :: "string \<Rightarrow> log_record \<Rightarrow> bool" where
  "is_error_for name (ERROR, ErrorLoading n e) = (n = name)"
| "is_error_for name (ERROR, FailedToProcess n e) = (n = name)"
| "is_error_for name r = False"

text \<open>The directory without the entry \<open>n\<close>.\<close>

definition without_entry :: "world \<Rightarrow> Path \<Rightarrow> string \<Rightarrow> world" where
  "without_entry w directory n =
     w\<lparr>scandir := (scandir w)(directory := removeAll n (scandir w directory))\<rparr>"

text \<open>The chunks and statistics a call returned, if it returned, and its log.\<close>

definition returned :: "exn + ('a \<times> 'b \<times> 'c) \<Rightarrow> ('a \<times> 'b) option" where
  "returned r = (case r of Inl e \<Rightarrow> None | Inr (chunks, st, lg) \<Rightarrow> Some (chunks, st))"

definition logged :: "exn + ('a \<times> 'b \<times> 'c list) \<Rightarrow> 'c list" where
  "logged r = (case r of Inl e \<Rightarrow> [] | Inr (chunks, st, lg) \<Rightarrow> lg)"

text \<open>A name that ends with one of the supported extensions as they are written.\<close>

definition supported_name :: "string \<Rightarrow> bool" where
  "supported_name name = list_ex (endswith name) supported_extensions"

text \<open>The statement \<^verbatim>\<open>stats.total_documents += 1\<close> alone.\<close>

definition count_document :: "pstate \<Rightarrow> pstate" where
  "count_document st = st\<lparr>stats := (stats st)\<lparr>total_documents := total_documents (stats st) + 1\<rparr>\<rparr>"

subsection \<open>The splitter of the specification\<close>

text \<open>
  Modelled from the spec: the class \<^verbatim>\<open>RecursiveCharacterTextSplitter\<close>, whose
  \<^verbatim>\<open>split_documents\<close> does the segmentation, comes from a library and is not among
  the sources; what follows is the Recursive Segmenter of section 4.2 and the Overlap
  Window Manager of section 4.3. Step 1 of section 4.2, for a separator that is not
  empty: the text is split at the occurrences of the separator, from left to right, and
  the separator stays at the end of each segment except the last, so that the segments
  joined give the text. \<open>acc\<close> is the part of the current segment that has been read.
\<close>

function raw_segments :: "string \<Rightarrow> string \<Rightarrow> string \<Rightarrow> string list" where
  "raw_segments s acc text =
     (if text = [] then [acc]
      else if s \<noteq> [] \<and> prefix s text
        then (acc @ s) # raw_segments s [] (drop (length s) text)
      else raw_segments s (acc @ [hd text]) (tl text))"
  by pat_completeness auto
termination
  by (relation "measure (\<lambda>(s, acc, text). length text)") auto

text \<open>
  Modelled from the spec: step 1 of section 4.2 for any separator; for the empty
  separator the segments are the characters of the text.
\<close>

definition segments_of :: "string \<Rightarrow> string \<Rightarrow> string list" where
  "segments_of s text = (if s = [] then map (\<lambda>c. [c]) text else raw_segments s [] text)"

text \<open>
  Modelled from the spec: the packing rule of step 2 of section 4.2 applied to the
  sub-chunks of a segment that has been broken down, which are appended one by one. A
  sub-chunk that fits is appended to the buffer; one that would overflow a buffer with
  content closes the buffer and starts the next one; one that exceeds the bound alone
  cannot be divided further and is emitted as it is (step 3). The result is the chunks
  closed and the buffer left open.
\<close>

fun append_all :: "nat \<Rightarrow> string \<Rightarrow> string list \<Rightarrow> string list \<times> string" where
  "append_all bound buf [] = ([], buf)"
| "append_all bound buf (p # ps) =
     (if length buf + length p \<le> bound then append_all bound (buf @ p) ps
      else if buf \<noteq> [] then (let (out, b) = append_all bound [] (p # ps) in (buf # out, b))
      else (let (out, b) = append_all bound [] ps in (p # out, b)))"

text \<open>
  Modelled from the spec: step 2 of section 4.2, the greedy packing of the segments into
  a buffer; \<open>sub\<close> is the segmentation with the remaining separators. A segment that
  keeps the buffer within the bound is appended. A segment that would overflow a buffer
  with content closes the buffer as a chunk, and the new buffer starts with the pending
  segment by the same rule: the segment is appended to the empty buffer when it fits and
  is broken down when it exceeds the bound alone. A segment that overflows the empty
  buffer is segmented with the remaining separators and its sub-chunks are appended one
  by one. At the end of the text a buffer with content is the last chunk.
\<close>

fun pack :: "nat \<Rightarrow> (string \<Rightarrow> string list) \<Rightarrow> string \<Rightarrow> string list \<Rightarrow> string list" where
  "pack bound sub buf [] = (if buf = [] then [] else [buf])"
| "pack bound sub buf (seg # rest) =
     (if length buf + length seg \<le> bound then pack bound sub (buf @ seg) rest
      else if buf \<noteq> [] then buf # pack bound sub [] (seg # rest)
      else (let (out, b) = append_all bound [] (sub seg) in out @ pack bound sub b rest))"

text \<open>
  Modelled from the spec: the contract \<^verbatim>\<open>segment(text, bound, separators)\<close> of
  section 4.2. The first separator splits the text and the rest of the list serves the
  segments that are too long; with no separator left a text is emitted as it is (step 3).
\<close>

primrec segment :: "nat \<Rightarrow> string list \<Rightarrow> string \<Rightarrow> string list" where
  "segment bound [] = (\<lambda>text. if text = [] then [] else [text])"
| "segment bound (s # seps) = (\<lambda>text. pack bound (segment bound seps) [] (segments_of s text))"

text \<open>
  Modelled from the spec: section 4.3, the characters that chunk \<open>i + 1\<close> receives from
  the tail of the content of chunk \<open>i\<close> as segmented: up to \<open>overlap\<close> of them, and
  fewer, the ones next to the boundary, where the chunk would grow past the bound.
\<close>

definition overlap_tail :: "nat \<Rightarrow> nat \<Rightarrow> string \<Rightarrow> string \<Rightarrow> string" where
  "overlap_tail bound overlap prev cur =
     (let k = min overlap (bound - length cur) in drop (length prev - k) prev)"

text \<open>
  Modelled from the spec: the Overlap Window Manager of section 4.3. The first chunk
  stays as it is; every other chunk is prefixed with its overlap, taken from the chunk
  before it as the segmentation produced it.
\<close>

fun add_overlap :: "nat \<Rightarrow> nat \<Rightarrow> string list \<Rightarrow> string list" where
  "add_overlap bound overlap [] = []"
| "add_overlap bound overlap (c # cs) =
     c # map2 (\<lambda>prev cur. overlap_tail bound overlap prev cur @ cur) (c # cs) cs"

text \<open>
  Modelled from the spec: the chunks of one text, sections 4.2 and 4.3 in sequence, and
  \<^verbatim>\<open>split_documents\<close> of a splitter configured with a bound, an overlap and a
  separator list: the chunks of each document in turn, each with the metadata of its
  document. It raises nothing.
\<close>

definition split_text :: "nat \<Rightarrow> nat \<Rightarrow> string list \<Rightarrow> string \<Rightarrow> string list" where
  "split_text bound overlap seps text = add_overlap bound overlap (segment bound seps text)"

definition split_documents :: "nat \<Rightarrow> nat \<Rightarrow> string list \<Rightarrow> splitter" where
  "split_documents bound overlap seps documents =
     Inr (concat (map (\<lambda>d. map (\<lambda>s. \<lparr>page_content = s, metadata = metadata d\<rparr>)
                              (split_text bound overlap seps (page_content d)))
                documents))"

text \<open>The processor of the source with this splitter in the place of the library's.\<close>

definition configured_processor :: "nat \<Rightarrow> nat \<Rightarrow> DocumentProcessor" where
  "configured_processor bound overlap =
     \<lparr>chunk_size = int bound, chunk_overlap = int overlap,
      text_splitter = split_documents bound overlap separators\<rparr>"

text \<open>A chunk is within the bound, or it is a single character.\<close>

definition within_bound :: "nat \<Rightarrow> string \<Rightarrow> bool" where
  "within_bound bound c = (length c \<le> bound \<or> length c = 1)"

text \<open>The decimal numeral of an integer, as an f-string prints it.\<close>

function str_nat :: "nat \<Rightarrow> string" where
  "str_nat n =
     (if n < 10 then [char_of (48 + n)] else str_nat (n div 10) @ [char_of (48 + n mod 10)])"
  by pat_completeness auto
termination
  by (relation "measure id") auto

definition str_int :: "int \<Rightarrow> string" where
  "str_int i = (if i < 0 then CHR ''-'' # str_nat (nat (- i)) else str_nat (nat i))"

text \<open>
  Modelled from the spec: the constructor of \<^verbatim>\<open>RecursiveCharacterTextSplitter\<close>,
  which the base class \<^verbatim>\<open>TextSplitter\<close> of the library defines, is not among the
  sources. As in section 7 it fails at construction, before anything is split, and it
  rejects a chunk size that is not positive. For the overlap it is the check of the
  library: a negative overlap and an overlap larger than the chunk size are rejected, and
  an overlap equal to the chunk size passes, where section 7 names every overlap that is
  not smaller than the chunk size. The error is the \<^verbatim>\<open>ValueError\<close> of the library with
  its message. The splitter constructed is the one of sections 4.2 and 4.3 above.
\<close>

definition TextSplitter_init :: "int \<Rightarrow> int \<Rightarrow> string list \<Rightarrow> exn + splitter" where
  "TextSplitter_init csize coverlap seps =
     (if csize \<le> 0
        then Inl (ValueError (''chunk_size must be > 0, got '' @ str_int csize))
      else if coverlap < 0
        then Inl (ValueError (''chunk_overlap must be >= 0, got '' @ str_int coverlap))
      else if coverlap > csize
        then Inl (ValueError (''Got a larger chunk overlap ('' @ str_int coverlap
                              @ '') than chunk size ('' @ str_int csize @ ''), should be smaller.''))
      else Inr (split_documents (nat csize) (nat coverlap) seps))"

subsection \<open>Example inputs\<close>

text \<open>
  A splitter that makes one chunk of each document with text and none of a document
  without text, and a loader that yields one document with the given text.
\<close>

definition example_splitter :: splitter where
  "example_splitter documents = Inr (filter (\<lambda>d. page_content d \<noteq> []) documents)"

definition example_loader :: "string \<Rightarrow> Path \<Rightarrow> exn + Document list" where
  "example_loader content p = Inr [\<lparr>page_content = content, metadata = [(''source'', PyStr p)]\<rparr>]"

text \<open>
  A world with one directory \<^verbatim>\<open>docs\<close> of the given entries, in which Word files hold
  a text, PDF files cannot be read and a text file holds a text unless it is called
  \<^verbatim>\<open>empty.txt\<close>.
\<close>

definition example_world :: "string list \<Rightarrow> bool \<Rightarrow> world" where
  "example_world entries case_sensitive =
     \<lparr>path_exists = (\<lambda>p. p = ''docs''),
      scandir = (\<lambda>p. if p = ''docs'' then entries else []),
      glob_case_sensitive = case_sensitive,
      Docx2txtLoader = example_loader ''Savings accounts'',
      PyPDFLoader = (\<lambda>p. Inl (RuntimeError ''not a PDF file'')),
      TextLoader = (\<lambda>p. example_loader (if path_name p = ''empty.txt'' then [] else ''Wire transfer fee'') p)\<rparr>"

definition example_processor :: DocumentProcessor where
  "example_processor = \<lparr>chunk_size = 1000, chunk_overlap = 200, text_splitter = example_splitter\<rparr>"

definition example_chunks :: "Document list" where
  "example_chunks =
     [\<lparr>page_content = ''Monthly fee: $5'', metadata = [(''source'', PyStr ''old''), (''page'', PyInt 3)]\<rparr>,
      \<lparr>page_content = ''Overdraft'', metadata = []\<rparr>,
      \<lparr>page_content = ''Fee waiver rules'', metadata = [(''chunk_index'', PyInt 7)]\<rparr>]"

definition example_document :: Document where
  "example_document =
     \<lparr>page_content = ''Savings pay 3.2%. Fees apply'' @ [CHR 0x0A, CHR 0x0A] @ ''Loans: see desk. Call us.'',
      metadata = [(''source'', PyStr ''docs/rates.txt'')]\<rparr>"

section \<open>Properties\<close>

subsection \<open>Category inference\<close>

lemma contains_sublist: "contains sub s \<longleftrightarrow> sublist sub s"
  by (induction s) (auto simp: sublist_Cons_right)

lemma lower_append: "lower (u @ v) = lower u @ lower v"
  by (simp add: lower_def)

lemma lower_eq_append:
  "lower s = p @ q \<Longrightarrow> \<exists>u v. s = u @ v \<and> lower u = p \<and> lower v = q"
  unfolding lower_def by (auto simp: map_eq_append_conv)

lemma contains_lower:
  assumes "lower kw = kw"
  shows "contains kw (lower s) \<longleftrightarrow> ci_substring kw s"
proof
  assume "contains kw (lower s)"
  then obtain ps ss where "lower s = ps @ kw @ ss"
    by (auto simp: contains_sublist sublist_def)
  then obtain u r where s: "s = u @ r" and "lower r = kw @ ss"
    using lower_eq_append by blast
  then obtain v w where "r = v @ w" "lower v = kw"
    using lower_eq_append by blast
  with s assms show "ci_substring kw s"
    unfolding ci_substring_def by auto
next
  assume "ci_substring kw s"
  then obtain u v w where "s = u @ v @ w" "lower v = kw"
    using assms by (auto simp: ci_substring_def)
  then have "lower s = lower u @ kw @ lower w"
    by (simp add: lower_append)
  then show "contains kw (lower s)"
    unfolding contains_sublist sublist_def by blast
qed

lemma keywords_lower:
  "lower ''account'' = ''account''" "lower ''product'' = ''product''"
  "lower ''fee'' = ''fee''" "lower ''charge'' = ''charge''"
  "lower ''loan'' = ''loan''" "lower ''mortgage'' = ''mortgage''"
  "lower ''security'' = ''security''" "lower ''fraud'' = ''fraud''"
  "lower ''service'' = ''service''" "lower ''support'' = ''support''"
  by code_simp+

lemma infer_refines: "infer_document_type filename = first_match category_table filename"
  unfolding infer_document_type_def category_table_def Let_def
  by (simp add: contains_lower keywords_lower del: contains.simps)

subsection \<open>Metadata enrichment\<close>

lemma map_of_dict_update_hit:
  "distinct (map fst other) \<Longrightarrow> (k, v) \<in> set other \<Longrightarrow> map_of (dict_update d other) k = Some v"
proof (induction other arbitrary: d)
  case Nil
  then show ?case by simp
next
  case (Cons kv other)
  obtain k' v' where kv: "kv = (k', v')" by (cases kv)
  show ?case
  proof (cases "(k, v) \<in> set other")
    case True
    with Cons show ?thesis by (simp add: dict_update_def)
  next
    case False
    with Cons.prems kv have eq: "k' = k" "v' = v" and notin: "k \<notin> fst ` set other" by auto
    have keep: "map_of (dict_update e other) k = map_of e k" for e
      using notin
    proof (induction other arbitrary: e)
      case Nil
      then show ?case by (simp add: dict_update_def)
    next
      case (Cons a other)
      then show ?case by (cases a) (auto simp: dict_update_def update_conv')
    qed
    show ?thesis using keep [of "AList.update k v d"] kv eq
      by (simp add: dict_update_def update_conv')
  qed
qed

lemma dict_update_same:
  "(\<And>k v. (k, v) \<in> set other \<Longrightarrow> map_of d k = Some v) \<Longrightarrow> dict_update d other = d"
proof (induction other)
  case Nil
  then show ?case by (simp add: dict_update_def)
next
  case (Cons kv other)
  obtain k v where kv: "kv = (k, v)" by (cases kv)
  with Cons.prems have "AList.update k v d = d" by (simp add: update_triv)
  with Cons kv show ?case by (simp add: dict_update_def)
qed

lemma dict_update_idem:
  "distinct (map fst other) \<Longrightarrow> dict_update (dict_update d other) other = dict_update d other"
  by (rule dict_update_same) (rule map_of_dict_update_hit)

lemma distinct_dict_update:
  "distinct (map fst d) \<Longrightarrow> distinct (map fst (dict_update d other))"
  unfolding dict_update_def
  by (induction other arbitrary: d) (auto simp: distinct_update)

lemma length_enrich [simp]: "length (enrich_metadata chunks sf) = length chunks"
  by (simp add: enrich_metadata_def Let_def)

lemma nth_enrich:
  "i < length chunks \<Longrightarrow> enrich_metadata chunks sf ! i = enrich_chunk sf (infer_document_type (path_name sf)) (length chunks) i (chunks ! i)"
  by (simp add: enrich_metadata_def Let_def nth_enumerate_eq)

lemma enrich_chunk_fields:
  "page_content (enrich_chunk sf t n i c) = page_content c"
  "map_of (metadata (enrich_chunk sf t n i c)) ''chunk_index'' = Some (PyInt (int i))"
  "map_of (metadata (enrich_chunk sf t n i c)) ''total_chunks'' = Some (PyInt (int n))"
  "map_of (metadata (enrich_chunk sf t n i c)) ''chunk_size'' = Some (PyInt (int (length (page_content c))))"
  "map_of (metadata (enrich_chunk sf t n i c)) ''doc_type'' = Some (PyStr t)"
  "map_of (metadata (enrich_chunk sf t n i c)) ''source'' = Some (PyStr sf)"
  "map_of (metadata (enrich_chunk sf t n i c)) ''filename'' = Some (PyStr (path_name sf))"
  by (simp_all add: enrich_chunk_def map_of_dict_update_hit)

lemma enrich_chunk_idem: "enrich_chunk sf t n i (enrich_chunk sf t n i c) = enrich_chunk sf t n i c"
  by (simp add: enrich_chunk_def dict_update_idem)

lemma enrich_idem: "enrich_metadata (enrich_metadata chunks sf) sf = enrich_metadata chunks sf"
  by (rule nth_equalityI) (simp_all add: nth_enrich enrich_chunk_idem)

lemma enrich_distinct:
  "distinct (map fst (metadata c)) \<Longrightarrow> distinct (map fst (metadata (enrich_chunk sf t n i c)))"
  by (simp add: enrich_chunk_def distinct_dict_update)

subsection \<open>The loop over the files\<close>

lemma logs_emit [simp]: "logs (emit rs st) = logs st @ rs"
  and all_chunks_emit [simp]: "all_chunks (emit rs st) = all_chunks st"
  and stats_emit [simp]: "stats (emit rs st) = stats st"
  by (simp_all add: emit_def)

lemma process_file_core:
  assumes "all_chunks st = all_chunks st'" "stats st = stats st'"
  shows "all_chunks (process_file w dp p st) = all_chunks (process_file w dp p st')
       \<and> stats (process_file w dp p st) = stats (process_file w dp p st')"
  using assms
  by (auto simp: process_file_def Let_def split: prod.splits sum.splits list.splits option.splits)

lemma process_file_logs_prefix: "prefix (logs st) (logs (process_file w dp p st))"
  by (auto simp: process_file_def Let_def split: prod.splits sum.splits list.splits option.splits)

lemma fold_process_file_logs_prefix: "prefix (logs st) (logs (fold (process_file w dp) fs st))"
proof (induction fs arbitrary: st)
  case Nil
  show ?case by simp
next
  case (Cons p fs)
  have "prefix (logs st) (logs (process_file w dp p st))"
    by (rule process_file_logs_prefix)
  also have "prefix \<dots> (logs (fold (process_file w dp) fs (process_file w dp p st)))"
    by (rule Cons.IH)
  finally show ?case by simp
qed

lemma list_ex_prefix: "prefix xs ys \<Longrightarrow> list_ex P xs \<Longrightarrow> list_ex P ys"
  by (auto simp: prefix_def)

lemma load_document_failed:
  "fails_to_load w p \<Longrightarrow>
     \<exists>e. load_document w p = ([], [(ERROR, ErrorLoading (path_name p) e)])"
  by (auto simp: fails_to_load_def load_document_def run_loader_def Let_def isl_def)

lemma process_file_failed:
  assumes "document_fails w dp p"
  shows "all_chunks (process_file w dp p st) = all_chunks st"
    and "stats (process_file w dp p st) = stats st"
    and "list_ex (is_error_for (path_name p)) (logs (process_file w dp p st))"
proof -
  from assms consider (load) "fails_to_load w p" | (segment) "fails_to_segment w dp p"
    by (auto simp: document_fails_def)
  then have "all_chunks (process_file w dp p st) = all_chunks st
      \<and> stats (process_file w dp p st) = stats st
      \<and> list_ex (is_error_for (path_name p)) (logs (process_file w dp p st))"
  proof cases
    case load
    then obtain e where "load_document w p = ([], [(ERROR, ErrorLoading (path_name p) e)])"
      using load_document_failed by blast
    then show ?thesis by (simp add: process_file_def)
  next
    case segment
    then obtain docs lg e where "load_document w p = (docs, lg)" "docs \<noteq> []"
      "text_splitter dp docs = Inl e"
      by (cases "load_document w p") (auto simp: fails_to_segment_def isl_def)
    then show ?thesis by (simp add: process_file_def chunk_documents_def)
  qed
  then show "all_chunks (process_file w dp p st) = all_chunks st"
    and "stats (process_file w dp p st) = stats st"
    and "list_ex (is_error_for (path_name p)) (logs (process_file w dp p st))" by simp_all
qed

lemma fold_process_file_reports:
  assumes "document_fails w dp p" "p \<in> set fs"
  shows "list_ex (is_error_for (path_name p)) (logs (fold (process_file w dp) fs st))"
  using assms(2)
proof (induction fs arbitrary: st)
  case Nil
  then show ?case by simp
next
  case (Cons q fs)
  show ?case
  proof (cases "q = p")
    case True
    have "list_ex (is_error_for (path_name p)) (logs (process_file w dp p st))"
      using assms(1) by (rule process_file_failed)
    then show ?thesis
      using True fold_process_file_logs_prefix [of "process_file w dp p st" w dp fs]
      by (auto intro: list_ex_prefix)
  next
    case False
    with Cons show ?thesis by simp
  qed
qed

lemma fold_process_file_skip:
  assumes "all_chunks st = all_chunks st'" "stats st = stats st'"
  shows "all_chunks (fold (process_file w dp) fs st)
           = all_chunks (fold (process_file w dp) (filter (\<lambda>p. \<not> document_fails w dp p) fs) st')
       \<and> stats (fold (process_file w dp) fs st)
           = stats (fold (process_file w dp) (filter (\<lambda>p. \<not> document_fails w dp p) fs) st')"
  using assms
proof (induction fs arbitrary: st st')
  case Nil
  then show ?case by simp
next
  case (Cons p fs)
  show ?case
  proof (cases "document_fails w dp p")
    case True
    then have "all_chunks (process_file w dp p st) = all_chunks st'"
      "stats (process_file w dp p st) = stats st'"
      using Cons.prems by (simp_all add: process_file_failed)
    from Cons.IH [OF this] True show ?thesis by simp
  next
    case False
    have "all_chunks (process_file w dp p st) = all_chunks (process_file w dp p st')"
      "stats (process_file w dp p st) = stats (process_file w dp p st')"
      using process_file_core [OF Cons.prems] by simp_all
    from Cons.IH [OF this] False show ?thesis by simp
  qed
qed

lemma load_document_without_entry [simp]:
  "load_document (without_entry w d n) p = load_document w p"
  by (simp add: load_document_def without_entry_def Let_def)

lemma process_file_without_entry [simp]:
  "process_file (without_entry w d n) dp = process_file w dp"
  by (rule ext)+ (simp add: process_file_def)

lemma document_fails_without_entry [simp]:
  "document_fails (without_entry w d n) dp p = document_fails w dp p"
  by (simp add: document_fails_def fails_to_segment_def fails_to_load_def Let_def)
    (simp add: without_entry_def)

lemma filter_find_files_without_entry:
  assumes "document_fails w dp (joinpath d n)"
  shows "filter (\<lambda>p. \<not> document_fails w dp p) (find_files (without_entry w d n) d)
       = filter (\<lambda>p. \<not> document_fails w dp p) (find_files w d)"
proof -
  have "filter (\<lambda>p. \<not> document_fails w dp p) (glob (without_entry w d n) d ext)
      = filter (\<lambda>p. \<not> document_fails w dp p) (glob w d ext)" for ext
    using assms
    by (auto simp: glob_def without_entry_def filter_map o_def removeAll_filter_not_eq
        intro!: arg_cong [where f = "map (joinpath d)"] filter_cong)
  then show ?thesis
    by (simp add: find_files_def filter_concat o_def)
qed

lemma process_file_total_chunks:
  "total_chunks (stats st) = int (length (all_chunks st)) \<Longrightarrow>
   total_chunks (stats (process_file w dp p st)) = int (length (all_chunks (process_file w dp p st)))"
  by (auto simp: process_file_def Let_def split: prod.splits sum.splits list.splits option.splits)

lemma fold_process_file_total_chunks:
  "total_chunks (stats st) = int (length (all_chunks st)) \<Longrightarrow>
   total_chunks (stats (fold (process_file w dp) fs st))
     = int (length (all_chunks (fold (process_file w dp) fs st)))"
  by (induction fs arbitrary: st) (simp_all add: process_file_total_chunks)

subsection \<open>The directory scan\<close>

lemma lower_idem_ext:
  "lower ''.docx'' = ''.docx''" "lower ''.pdf'' = ''.pdf''" "lower ''.txt'' = ''.txt''"
  by code_simp+

lemma endswith_lower: "endswith name ext \<Longrightarrow> endswith (lower name) (lower ext)"
  by (auto simp: endswith_def suffix_def lower_def)

lemma glob_matches_exact: "endswith name ext \<Longrightarrow> glob_matches cs ext name"
  by (simp add: glob_matches_def endswith_lower)

lemma glob_matches_lower: "glob_matches cs ext name \<Longrightarrow> lower ext = ext \<Longrightarrow> endswith (lower name) ext"
  by (auto simp: glob_matches_def dest: endswith_lower split: if_splits)

lemma scan_includes:
  assumes "n \<in> set (scandir w d)" "supported_name n"
  shows "joinpath d n \<in> set (find_files w d)"
  using assms
  by (auto simp: supported_name_def find_files_def glob_def supported_extensions_def
      glob_matches_exact)

lemma scan_excludes:
  assumes "\<not> supported_name (lower n)"
  shows "find_files (without_entry w d n) d = find_files w d"
proof -
  have "\<not> glob_matches cs ext n" if "ext \<in> set supported_extensions" for cs ext
    using assms that glob_matches_lower [of cs ext n] lower_idem_ext
    by (auto simp: supported_name_def supported_extensions_def)
  then have "filter (glob_matches cs ext) (removeAll n xs) = filter (glob_matches cs ext) xs"
    if "ext \<in> set supported_extensions" for cs ext xs
    using that by (induction xs) auto
  then show ?thesis
    by (simp add: find_files_def glob_def without_entry_def supported_extensions_def)
qed

lemma process_directory_excluded:
  assumes "\<not> supported_name (lower n)"
  shows "process_directory (without_entry w d n) dp d = process_directory w dp d"
proof -
  have "path_exists (without_entry w d n) d = path_exists w d"
    by (simp add: without_entry_def)
  then show ?thesis
    using scan_excludes [OF assms]
    by (simp add: process_directory_def)
qed

lemma load_document_unsupported:
  "lower (path_suffix p) \<notin> set supported_extensions \<Longrightarrow>
   load_document w p = ([], [(WARNING, UnsupportedFileType (lower (path_suffix p)))])"
  by (simp add: load_document_def supported_extensions_def Let_def)

subsection \<open>A document without chunks\<close>

lemma process_file_count_document:
  "all_chunks (process_file w dp q (count_document st)) = all_chunks (process_file w dp q st)
   \<and> stats (process_file w dp q (count_document st)) = stats (count_document (process_file w dp q st))"
  by (auto simp: process_file_def count_document_def Let_def
      split: prod.splits sum.splits list.splits option.splits)

lemma all_chunks_count_document [simp]: "all_chunks (count_document st) = all_chunks st"
  by (simp add: count_document_def)

lemma fold_process_file_count_document:
  "all_chunks (fold (process_file w dp) fs (count_document st)) = all_chunks (fold (process_file w dp) fs st)
   \<and> stats (fold (process_file w dp) fs (count_document st))
       = stats (count_document (fold (process_file w dp) fs st))"
proof (induction fs arbitrary: st)
  case Nil
  show ?case by simp
next
  case (Cons q fs)
  have "all_chunks (process_file w dp q (count_document st)) = all_chunks (count_document (process_file w dp q st))"
    "stats (process_file w dp q (count_document st)) = stats (count_document (process_file w dp q st))"
    using process_file_count_document [of w dp q st] by simp_all
  from fold_process_file_skip [OF this, of w dp fs] fold_process_file_skip [OF refl refl, of w dp fs "count_document (process_file w dp q st)"]
  have "all_chunks (fold (process_file w dp) fs (process_file w dp q (count_document st)))
      = all_chunks (fold (process_file w dp) fs (count_document (process_file w dp q st)))"
    "stats (fold (process_file w dp) fs (process_file w dp q (count_document st)))
      = stats (fold (process_file w dp) fs (count_document (process_file w dp q st)))"
    by simp_all
  with Cons.IH [of "process_file w dp q st"] show ?case by simp
qed

lemma process_file_no_chunks:
  assumes "fst (load_document w p) \<noteq> []"
    and "text_splitter dp (fst (load_document w p)) = Inr []"
  shows "all_chunks (process_file w dp p st) = all_chunks st"
    and "stats (process_file w dp p st) = stats (count_document st)"
    and "last (logs (process_file w dp p st))
           = (ERROR, FailedToProcess (path_name p) (IndexError ''list index out of range''))"
  using assms
  by (cases "load_document w p";
      simp add: process_file_def chunk_documents_def enrich_metadata_def count_document_def)+

lemma fold_process_file_no_chunks:
  assumes "fst (load_document w p) \<noteq> []"
    and "text_splitter dp (fst (load_document w p)) = Inr []"
    and "count_list fs p = 1"
  shows "all_chunks (fold (process_file w dp) fs st)
           = all_chunks (fold (process_file w dp) (removeAll p fs) st)
       \<and> stats (fold (process_file w dp) fs st)
           = stats (count_document (fold (process_file w dp) (removeAll p fs) st))"
  using assms(3)
proof (induction fs arbitrary: st)
  case Nil
  then show ?case by simp
next
  case (Cons q fs)
  show ?case
  proof (cases "q = p")
    case True
    with Cons.prems have "count_list fs p = 0" by simp
    then have "p \<notin> set fs" by (simp add: count_list_0_iff)
    then have rm: "removeAll p fs = fs" by simp
    have "all_chunks (process_file w dp p st) = all_chunks (count_document st)"
      "stats (process_file w dp p st) = stats (count_document st)"
      using process_file_no_chunks [OF assms(1,2)] by simp_all
    from fold_process_file_skip [OF this, of w dp fs]
      fold_process_file_skip [OF refl refl, of w dp fs "count_document st"]
    have "all_chunks (fold (process_file w dp) fs (process_file w dp p st))
        = all_chunks (fold (process_file w dp) fs (count_document st))"
      "stats (fold (process_file w dp) fs (process_file w dp p st))
        = stats (fold (process_file w dp) fs (count_document st))"
      by simp_all
    with fold_process_file_count_document [of w dp fs st] True rm show ?thesis by simp
  next
    case False
    with Cons show ?thesis by simp
  qed
qed

lemma joinpath_inject: "joinpath d n' = joinpath d n \<Longrightarrow> n' = n"
  by (auto simp: joinpath_def split: if_splits)

lemma removeAll_map_inj:
  "(\<And>x. f x = f n \<Longrightarrow> x = n) \<Longrightarrow> removeAll (f n) (map f xs) = map f (removeAll n xs)"
  by (induction xs) auto

lemma glob_without_entry:
  "glob (without_entry w d n) d ext = removeAll (joinpath d n) (glob w d ext)"
proof -
  have "removeAll (joinpath d n) (map (joinpath d) xs) = map (joinpath d) (removeAll n xs)" for xs
    by (rule removeAll_map_inj) (rule joinpath_inject)
  moreover have "filter P (removeAll n xs) = removeAll n (filter P xs)" for P xs
    by (induction xs) auto
  ultimately show ?thesis
    by (simp add: glob_def without_entry_def)
qed

lemma find_files_without_entry:
  "find_files (without_entry w d n) d = removeAll (joinpath d n) (find_files w d)"
  by (simp add: find_files_def supported_extensions_def glob_without_entry removeAll_append)

lemma fold_process_file_last_log:
  assumes "p \<in> set fs"
    and "\<And>st. logs (process_file w dp p st) \<noteq> logs st \<and> last (logs (process_file w dp p st)) = r"
  shows "r \<in> set (logs (fold (process_file w dp) fs st))"
  using assms(1)
proof (induction fs arbitrary: st)
  case Nil
  then show ?case by simp
next
  case (Cons q fs)
  show ?case
  proof (cases "q = p")
    case True
    have "logs (process_file w dp p st) \<noteq> []"
      using assms(2) [of st] process_file_logs_prefix [of st w dp p] by (auto simp: prefix_def)
    then have "r \<in> set (logs (process_file w dp p st))"
      using assms(2) [of st] last_in_set by metis
    then show ?thesis
      using True fold_process_file_logs_prefix [of "process_file w dp p st" w dp fs]
      by (auto simp: prefix_def)
  next
    case False
    with Cons show ?thesis by simp
  qed
qed

lemma process_file_no_chunks_logs:
  assumes "fst (load_document w p) \<noteq> []"
    and "text_splitter dp (fst (load_document w p)) = Inr []"
  shows "logs (process_file w dp p st) \<noteq> logs st"
  using assms
  by (cases "load_document w p")
    (simp add: process_file_def chunk_documents_def enrich_metadata_def)

lemma find_files_member:
  assumes "joinpath d n \<in> set (find_files w d)"
  shows "\<exists>ext \<in> set supported_extensions. glob_matches (glob_case_sensitive w) ext n"
proof -
  from assms obtain ext n' where "ext \<in> set supported_extensions"
    "glob_matches (glob_case_sensitive w) ext n'" "joinpath d n' = joinpath d n"
    by (auto simp: find_files_def glob_def)
  then show ?thesis using joinpath_inject by blast
qed

lemma scan_not_member:
  assumes "\<not> supported_name (lower n)"
  shows "joinpath d n \<notin> set (find_files w d)"
proof
  assume "joinpath d n \<in> set (find_files w d)"
  then obtain ext where "ext \<in> set supported_extensions"
    "glob_matches (glob_case_sensitive w) ext n"
    using find_files_member by blast
  then have "endswith (lower n) ext"
    using lower_idem_ext by (auto simp: supported_extensions_def intro: glob_matches_lower)
  with \<open>ext \<in> set supported_extensions\<close> assms show False
    by (auto simp: supported_name_def list_ex_iff)
qed

lemma load_document_supported:
  "load_document w p =
     (if lower (path_suffix p) = ''.docx'' then run_loader (Docx2txtLoader w) p
      else if lower (path_suffix p) = ''.pdf'' then run_loader (PyPDFLoader w) p
      else if lower (path_suffix p) = ''.txt'' then run_loader (TextLoader w) p
      else ([], [(WARNING, UnsupportedFileType (lower (path_suffix p)))]))"
  by (simp add: load_document_def Let_def)

subsection \<open>The splitter of the specification\<close>

declare append_all.simps(2) [simp del]

lemma append_all_fit:
  "length buf + length p \<le> bound \<Longrightarrow> append_all bound buf (p # ps) = append_all bound (buf @ p) ps"
  by (subst append_all.simps(2)) simp

lemma append_all_close:
  "\<not> length buf + length p \<le> bound \<Longrightarrow> buf \<noteq> [] \<Longrightarrow>
     append_all bound buf (p # ps)
       = (buf # fst (append_all bound [] (p # ps)), snd (append_all bound [] (p # ps)))"
  by (subst append_all.simps(2)) (simp add: case_prod_unfold Let_def)

lemma append_all_whole:
  "\<not> length p \<le> bound \<Longrightarrow>
     append_all bound [] (p # ps) = (p # fst (append_all bound [] ps), snd (append_all bound [] ps))"
  by (subst append_all.simps(2)) (simp add: case_prod_unfold Let_def)

lemma append_all_within:
  assumes "length buf \<le> bound" "\<forall>p \<in> set ps. within_bound bound p"
  shows "(\<forall>c \<in> set (fst (append_all bound buf ps)). within_bound bound c)
       \<and> length (snd (append_all bound buf ps)) \<le> bound"
  using assms
proof (induction bound buf ps rule: append_all.induct)
  case (1 bound buf)
  then show ?case by simp
next
  case (2 bound buf p ps)
  have ps: "\<forall>q \<in> set ps. within_bound bound q" and p: "within_bound bound p"
    using "2.prems"(2) by simp_all
  show ?case
  proof (cases "length buf + length p \<le> bound")
    case True
    then have "length (buf @ p) \<le> bound" by simp
    from "2.IH"(1) [OF True this ps] show ?thesis
      unfolding append_all_fit [OF True] .
  next
    case False
    show ?thesis
    proof (cases "buf = []")
      case True
      with False have big: "\<not> length p \<le> bound" by simp
      have "length ([] :: string) \<le> bound" by simp
      from "2.IH"(3) [OF False _ this ps] True
      have "(\<forall>c \<in> set (fst (append_all bound [] ps)). within_bound bound c)
          \<and> length (snd (append_all bound [] ps)) \<le> bound" by blast
      with p show ?thesis
        unfolding True append_all_whole [OF big] by simp
    next
      case nonempty: False
      have "length ([] :: string) \<le> bound" by simp
      from "2.IH"(2) [OF False nonempty this "2.prems"(2)]
      have "(\<forall>c \<in> set (fst (append_all bound [] (p # ps))). within_bound bound c)
          \<and> length (snd (append_all bound [] (p # ps))) \<le> bound" .
      moreover have "within_bound bound buf"
        using "2.prems"(1) by (simp add: within_bound_def)
      ultimately show ?thesis
        unfolding append_all_close [OF False nonempty] by simp
    qed
  qed
qed

declare pack.simps(2) [simp del]

lemma pack_fit:
  "length buf + length seg \<le> bound \<Longrightarrow> pack bound sub buf (seg # rest) = pack bound sub (buf @ seg) rest"
  by (subst pack.simps(2)) simp

lemma pack_close:
  "\<not> length buf + length seg \<le> bound \<Longrightarrow> buf \<noteq> [] \<Longrightarrow>
     pack bound sub buf (seg # rest) = buf # pack bound sub [] (seg # rest)"
  by (subst pack.simps(2)) simp

lemma pack_break:
  "\<not> length seg \<le> bound \<Longrightarrow>
     pack bound sub [] (seg # rest)
       = fst (append_all bound [] (sub seg)) @ pack bound sub (snd (append_all bound [] (sub seg))) rest"
  by (subst pack.simps(2)) (simp add: case_prod_unfold Let_def)

lemma pack_within:
  assumes "length buf \<le> bound"
    and "\<forall>seg \<in> set segs. \<forall>c \<in> set (sub seg). within_bound bound c"
  shows "\<forall>c \<in> set (pack bound sub buf segs). within_bound bound c"
  using assms
proof (induction bound sub buf segs rule: pack.induct)
  case (1 bound sub buf)
  then show ?case by (simp add: within_bound_def)
next
  case (2 bound sub buf seg rest)
  have rest: "\<forall>seg \<in> set rest. \<forall>c \<in> set (sub seg). within_bound bound c"
    and seg: "\<forall>c \<in> set (sub seg). within_bound bound c"
    using "2.prems"(2) by simp_all
  show ?case
  proof (cases "length buf + length seg \<le> bound")
    case True
    then have "length (buf @ seg) \<le> bound" by simp
    from "2.IH"(1) [OF True this rest] show ?thesis
      unfolding pack_fit [OF True] .
  next
    case False
    show ?thesis
    proof (cases "buf = []")
      case nonempty: False
      have "length ([] :: string) \<le> bound" by simp
      from "2.IH"(2) [OF False nonempty this "2.prems"(2)]
      have "\<forall>c \<in> set (pack bound sub [] (seg # rest)). within_bound bound c" .
      moreover have "within_bound bound buf"
        using "2.prems"(1) by (simp add: within_bound_def)
      ultimately show ?thesis
        unfolding pack_close [OF False nonempty] by simp
    next
      case True
      with False have big: "\<not> length seg \<le> bound" by simp
      let ?r = "append_all bound [] (sub seg)"
      have ab: "(\<forall>c \<in> set (fst ?r). within_bound bound c) \<and> length (snd ?r) \<le> bound"
        using seg by (intro append_all_within) simp_all
      have "\<not> buf \<noteq> []" using True by simp
      then have "\<forall>c \<in> set (pack bound sub (snd ?r) rest). within_bound bound c"
      proof (rule "2.IH"(3) [OF False _ refl])
        show "(fst ?r, snd ?r) = ?r" by simp
        show "length (snd ?r) \<le> bound" using ab by simp
        show "\<forall>seg \<in> set rest. \<forall>c \<in> set (sub seg). within_bound bound c" by (rule rest)
      qed
      with ab show ?thesis
        unfolding True pack_break [OF big] by auto
    qed
  qed
qed

lemma segments_of_empty_sep: "seg \<in> set (segments_of [] t) \<Longrightarrow> length seg = 1"
  by (auto simp: segments_of_def)

lemma segment_within:
  assumes "seps \<noteq> []" "last seps = []"
  shows "\<forall>c \<in> set (segment bound seps t). within_bound bound c"
  using assms
proof (induction seps arbitrary: t)
  case Nil
  then show ?case by simp
next
  case (Cons s seps)
  have "\<forall>seg \<in> set (segments_of s t). \<forall>c \<in> set (segment bound seps seg). within_bound bound c"
  proof (cases "seps = []")
    case True
    with Cons.prems have "s = []" by simp
    with True show ?thesis
      by (auto simp: within_bound_def dest: segments_of_empty_sep)
  next
    case False
    with Cons show ?thesis by simp
  qed
  then have "\<forall>c \<in> set (pack bound (segment bound seps) [] (segments_of s t)). within_bound bound c"
    by (intro pack_within) simp_all
  then show ?case by simp
qed

declare raw_segments.simps [simp del]

lemma raw_segments_end: "raw_segments s acc [] = [acc]"
  by (subst raw_segments.simps) simp

lemma raw_segments_match:
  "s \<noteq> [] \<Longrightarrow> raw_segments s acc (s @ r) = (acc @ s) # raw_segments s [] r"
  by (subst raw_segments.simps) simp

lemma raw_segments_step:
  "\<not> (s \<noteq> [] \<and> prefix s (c # t)) \<Longrightarrow> raw_segments s acc (c # t) = raw_segments s (acc @ [c]) t"
  by (subst raw_segments.simps) auto

lemma concat_raw_segments: "concat (raw_segments s acc t) = acc @ t"
proof (induction s acc t rule: raw_segments.induct)
  case (1 s acc t)
  show ?case
  proof (cases "t = []")
    case True
    then show ?thesis by (simp add: raw_segments_end)
  next
    case False
    show ?thesis
    proof (cases "s \<noteq> [] \<and> prefix s t")
      case True
      then obtain r where r: "t = s @ r" by (auto simp: prefix_def)
      from "1.IH"(1) [OF False True] True r show ?thesis
        by (simp add: raw_segments_match)
    next
      case nomatch: False
      from False obtain c t' where t: "t = c # t'" by (cases t) auto
      from "1.IH"(2) [OF False nomatch] nomatch t show ?thesis
        by (simp add: raw_segments_step)
    qed
  qed
qed

lemma concat_singletons: "concat (map (\<lambda>c. [c]) t) = t"
  by (induction t) simp_all

lemma concat_segments_of: "concat (segments_of s t) = t"
  by (simp add: segments_of_def concat_raw_segments concat_singletons)

lemma concat_append_all:
  "concat (fst (append_all bound buf ps)) @ snd (append_all bound buf ps) = buf @ concat ps"
proof (induction bound buf ps rule: append_all.induct)
  case (1 bound buf)
  show ?case by simp
next
  case (2 bound buf p ps)
  show ?case
  proof (cases "length buf + length p \<le> bound")
    case True
    from "2.IH"(1) [OF True] show ?thesis
      unfolding append_all_fit [OF True] by simp
  next
    case False
    show ?thesis
    proof (cases "buf = []")
      case True
      with False have big: "\<not> length p \<le> bound" by simp
      from "2.IH"(3) [OF False] True show ?thesis
        unfolding True append_all_whole [OF big] by simp
    next
      case nonempty: False
      from "2.IH"(2) [OF False nonempty] show ?thesis
        unfolding append_all_close [OF False nonempty] by simp
    qed
  qed
qed

lemma concat_pack:
  assumes "\<forall>seg. concat (sub seg) = seg"
  shows "concat (pack bound sub buf segs) = buf @ concat segs"
  using assms
proof (induction bound sub buf segs rule: pack.induct)
  case (1 bound sub buf)
  show ?case by simp
next
  case (2 bound sub buf seg rest)
  show ?case
  proof (cases "length buf + length seg \<le> bound")
    case True
    from "2.IH"(1) [OF True "2.prems"] show ?thesis
      unfolding pack_fit [OF True] by simp
  next
    case False
    show ?thesis
    proof (cases "buf = []")
      case nonempty: False
      from "2.IH"(2) [OF False nonempty "2.prems"] show ?thesis
        unfolding pack_close [OF False nonempty] by simp
    next
      case True
      with False have big: "\<not> length seg \<le> bound" by simp
      let ?r = "append_all bound [] (sub seg)"
      have "\<not> buf \<noteq> []" using True by simp
      then have rest: "concat (pack bound sub (snd ?r) rest) = snd ?r @ concat rest"
      proof (rule "2.IH"(3) [OF False _ refl])
        show "(fst ?r, snd ?r) = ?r" by simp
        show "\<forall>seg. concat (sub seg) = seg" by (rule "2.prems")
      qed
      have "concat (fst ?r) @ snd ?r = [] @ concat (sub seg)"
        by (rule concat_append_all)
      then have sub: "concat (fst ?r) @ snd ?r = seg"
        using "2.prems" by simp
      have "concat (fst ?r @ pack bound sub (snd ?r) rest) = (concat (fst ?r) @ snd ?r) @ concat rest"
        using rest by simp
      then show ?thesis
        unfolding True pack_break [OF big] sub by simp
    qed
  qed
qed

lemma concat_segment: "concat (segment bound seps t) = t"
proof (induction seps arbitrary: t)
  case Nil
  show ?case by simp
next
  case (Cons s seps)
  then have "\<forall>seg. concat (segment bound seps seg) = seg" by simp
  then have "concat (pack bound (segment bound seps) [] (segments_of s t)) = [] @ concat (segments_of s t)"
    by (rule concat_pack)
  then show ?case by (simp add: concat_segments_of)
qed

lemma overlap_tail_length: "length (overlap_tail bound overlap prev cur) \<le> overlap"
  and overlap_tail_room: "length (overlap_tail bound overlap prev cur) \<le> bound - length cur"
  and overlap_tail_suffix: "suffix (overlap_tail bound overlap prev cur) prev"
  by (simp_all add: overlap_tail_def Let_def suffix_drop)

lemma length_add_overlap: "length (add_overlap bound overlap cs) = length cs"
  by (cases cs) simp_all

lemma add_overlap_next:
  assumes "Suc i < length cs"
  shows "add_overlap bound overlap cs ! Suc i
           = overlap_tail bound overlap (cs ! i) (cs ! Suc i) @ cs ! Suc i"
proof (cases cs)
  case Nil
  with assms show ?thesis by simp
next
  case (Cons c cs')
  with assms have "i < length cs'" by simp
  with Cons show ?thesis by simp
qed

lemma add_overlap_suffix:
  assumes "i < length cs"
  shows "suffix (cs ! i) (add_overlap bound overlap cs ! i)"
proof (cases i)
  case 0
  with assms show ?thesis by (cases cs) simp_all
next
  case (Suc j)
  with assms show ?thesis by (simp add: add_overlap_next suffix_def)
qed

lemma within_bound_overlap:
  assumes "within_bound bound cur"
  shows "within_bound bound (overlap_tail bound overlap prev cur @ cur)"
proof (cases "length cur \<le> bound")
  case True
  with overlap_tail_room [of bound overlap prev cur]
  have "length (overlap_tail bound overlap prev cur) + length cur \<le> bound" by arith
  then show ?thesis
    by (simp add: within_bound_def)
next
  case False
  with overlap_tail_room [of bound overlap prev cur]
  have "overlap_tail bound overlap prev cur = []" by simp
  with assms show ?thesis by simp
qed

lemma add_overlap_within:
  assumes "\<forall>c \<in> set cs. within_bound bound c"
  shows "\<forall>c \<in> set (add_overlap bound overlap cs). within_bound bound c"
proof -
  have "within_bound bound (add_overlap bound overlap cs ! i)" if "i < length cs" for i
  proof (cases i)
    case 0
    with that assms show ?thesis by (cases cs) simp_all
  next
    case (Suc j)
    with that assms show ?thesis
      by (simp add: add_overlap_next within_bound_overlap)
  qed
  then show ?thesis
    by (auto simp: in_set_conv_nth length_add_overlap)
qed

lemma separators_terminal: "separators \<noteq> [] \<and> last separators = []"
  by (simp add: separators_def)

lemma split_text_within: "\<forall>c \<in> set (split_text bound overlap separators t). within_bound bound c"
  unfolding split_text_def
  using separators_terminal by (intro add_overlap_within segment_within) simp_all

lemma chunk_documents_configured:
  "chunk_documents (configured_processor bound overlap) documents
     = Inr (concat (map (\<lambda>d. map (\<lambda>s. \<lparr>page_content = s, metadata = metadata d\<rparr>)
                                  (split_text bound overlap separators (page_content d)))
                    documents),
            [(INFO, SplitDocuments (length documents)
               (length (concat (map (\<lambda>d. map (\<lambda>s. \<lparr>page_content = s, metadata = metadata d\<rparr>)
                                  (split_text bound overlap separators (page_content d)))
                    documents))))])"
  by (simp add: chunk_documents_def configured_processor_def split_documents_def)

declare str_nat.simps [simp del]

section \<open>The claims\<close>

subsection \<open>Metadata\<close>

text \<open>
  Claim C4. For a document that produces \<open>N\<close> chunks, after the enrichment the
  \<^verbatim>\<open>chunk_index\<close> values of its chunks are \<open>0, 1, ..., N - 1\<close> in the order of the
  chunks, the \<^verbatim>\<open>total_chunks\<close> field of every chunk is \<open>N\<close>, and the
  \<^verbatim>\<open>chunk_size\<close> field of every chunk is the length of its content, which the
  enrichment leaves as it was.
\<close>

theorem enrich_metadata_indexing:
  "length (enrich_metadata chunks source_file) = length chunks
   \<and> map page_content (enrich_metadata chunks source_file) = map page_content chunks
   \<and> map (\<lambda>c. map_of (metadata c) ''chunk_index'') (enrich_metadata chunks source_file)
       = map (\<lambda>i. Some (PyInt (int i))) [0..<length chunks]
   \<and> map (\<lambda>c. map_of (metadata c) ''total_chunks'') (enrich_metadata chunks source_file)
       = replicate (length chunks) (Some (PyInt (int (length chunks))))
   \<and> map (\<lambda>c. map_of (metadata c) ''chunk_size'') (enrich_metadata chunks source_file)
       = map (\<lambda>c. Some (PyInt (int (length (page_content c))))) (enrich_metadata chunks source_file)"
proof (intro conjI)
  show "length (enrich_metadata chunks source_file) = length chunks"
    by simp
  show "map page_content (enrich_metadata chunks source_file) = map page_content chunks"
    by (rule nth_equalityI) (simp_all add: nth_enrich enrich_chunk_fields)
  show "map (\<lambda>c. map_of (metadata c) ''chunk_index'') (enrich_metadata chunks source_file)
      = map (\<lambda>i. Some (PyInt (int i))) [0..<length chunks]"
    by (rule nth_equalityI) (simp_all add: nth_enrich enrich_chunk_fields)
  show "map (\<lambda>c. map_of (metadata c) ''total_chunks'') (enrich_metadata chunks source_file)
      = replicate (length chunks) (Some (PyInt (int (length chunks))))"
    by (rule nth_equalityI) (simp_all add: nth_enrich enrich_chunk_fields)
  show "map (\<lambda>c. map_of (metadata c) ''chunk_size'') (enrich_metadata chunks source_file)
      = map (\<lambda>c. Some (PyInt (int (length (page_content c))))) (enrich_metadata chunks source_file)"
    by (rule nth_equalityI) (simp_all add: nth_enrich enrich_chunk_fields)
qed

text \<open>
  Claim C4 on three chunks, one of which arrives with a \<^verbatim>\<open>chunk_index\<close> of its own.
\<close>

theorem enrich_metadata_indexing_witness:
  "map (\<lambda>c. map_of (metadata c) ''chunk_index'') (enrich_metadata example_chunks ''docs/fee_schedule.docx'')
     = [Some (PyInt 0), Some (PyInt 1), Some (PyInt 2)]
   \<and> map (\<lambda>c. map_of (metadata c) ''total_chunks'') (enrich_metadata example_chunks ''docs/fee_schedule.docx'')
     = [Some (PyInt 3), Some (PyInt 3), Some (PyInt 3)]
   \<and> map (\<lambda>c. map_of (metadata c) ''chunk_size'') (enrich_metadata example_chunks ''docs/fee_schedule.docx'')
     = [Some (PyInt 15), Some (PyInt 9), Some (PyInt 16)]"
proof -
  have n: "length example_chunks = 3"
    by (simp add: example_chunks_def)
  have idx: "map (\<lambda>i. Some (PyInt (int i))) [0..<3] = [Some (PyInt 0), Some (PyInt 1), Some (PyInt 2)]"
    by (simp add: upt_rec)
  have tot: "replicate 3 (Some (PyInt 3)) = [Some (PyInt 3), Some (PyInt 3), Some (PyInt 3)]"
    by (simp add: numeral_3_eq_3)
  have sz: "map (\<lambda>c. Some (PyInt (int (length (page_content c))))) example_chunks
      = [Some (PyInt 15), Some (PyInt 9), Some (PyInt 16)]"
    by (simp add: example_chunks_def)
  have "map (\<lambda>c. Some (PyInt (int (length (page_content c))))) (enrich_metadata example_chunks ''docs/fee_schedule.docx'')
      = map ((\<lambda>s. Some (PyInt (int (length s)))) \<circ> page_content) (enrich_metadata example_chunks ''docs/fee_schedule.docx'')"
    by (simp add: o_def)
  also have "\<dots> = map (\<lambda>s. Some (PyInt (int (length s)))) (map page_content example_chunks)"
    using enrich_metadata_indexing [of example_chunks "''docs/fee_schedule.docx''"]
    by (simp del: map_map add: map_map [symmetric])
  finally show ?thesis
    using enrich_metadata_indexing [of example_chunks "''docs/fee_schedule.docx''"] n idx tot sz
    by (simp add: o_def)
qed

text \<open>
  Claim C9. Enriching a chunk sequence a second time with the same source identifier
  changes nothing: the chunks, their metadata included, are what the first enrichment
  made them, and where the keys of every chunk were distinct before the enrichment they
  are distinct after it.
\<close>

theorem enrich_metadata_idempotent:
  "enrich_metadata (enrich_metadata chunks source_file) source_file = enrich_metadata chunks source_file
   \<and> (list_all (\<lambda>c. distinct (map fst (metadata c))) chunks
        \<longrightarrow> list_all (\<lambda>c. distinct (map fst (metadata c))) (enrich_metadata chunks source_file))"
proof
  show "enrich_metadata (enrich_metadata chunks source_file) source_file = enrich_metadata chunks source_file"
    by (rule enrich_idem)
  show "list_all (\<lambda>c. distinct (map fst (metadata c))) chunks
        \<longrightarrow> list_all (\<lambda>c. distinct (map fst (metadata c))) (enrich_metadata chunks source_file)"
    by (auto simp: list_all_length nth_enrich enrich_distinct)
qed

text \<open>Claim C9 on the three example chunks, whose keys are distinct.\<close>

theorem enrich_metadata_idempotent_witness:
  "list_all (\<lambda>c. distinct (map fst (metadata c))) example_chunks
   \<and> enrich_metadata (enrich_metadata example_chunks ''docs/fee_schedule.docx'') ''docs/fee_schedule.docx''
       = enrich_metadata example_chunks ''docs/fee_schedule.docx''
   \<and> list_all (\<lambda>c. distinct (map fst (metadata c))) (enrich_metadata example_chunks ''docs/fee_schedule.docx'')
   \<and> map (map fst \<circ> metadata) (enrich_metadata example_chunks ''docs/fee_schedule.docx'')
       = [[''source'', ''page'', ''filename'', ''doc_type'', ''chunk_index'', ''total_chunks'', ''chunk_size''],
          [''source'', ''filename'', ''doc_type'', ''chunk_index'', ''total_chunks'', ''chunk_size''],
          [''chunk_index'', ''source'', ''filename'', ''doc_type'', ''total_chunks'', ''chunk_size'']]"
proof -
  have d: "list_all (\<lambda>c. distinct (map fst (metadata c))) example_chunks"
    by (simp add: example_chunks_def)
  have k: "map (map fst \<circ> metadata) (enrich_metadata example_chunks ''docs/fee_schedule.docx'')
       = [[''source'', ''page'', ''filename'', ''doc_type'', ''chunk_index'', ''total_chunks'', ''chunk_size''],
          [''source'', ''filename'', ''doc_type'', ''chunk_index'', ''total_chunks'', ''chunk_size''],
          [''chunk_index'', ''source'', ''filename'', ''doc_type'', ''total_chunks'', ''chunk_size'']]"
    by code_simp
  show ?thesis
    using enrich_metadata_idempotent [of example_chunks "''docs/fee_schedule.docx''"] d k
    by blast
qed

subsection \<open>Category inference\<close>

text \<open>
  Claim C5, amended. The category of a source identifier is the one the priority table
  gives: the first group of keywords of which one occurs in the identifier, letter case
  ignored, and \<^verbatim>\<open>general\<close> when none does. So \<^verbatim>\<open>account_types.docx\<close> is
  \<^verbatim>\<open>account_info\<close>, \<^verbatim>\<open>fee_schedule.docx\<close> is \<^verbatim>\<open>fees\<close>,
  \<^verbatim>\<open>security_policy.docx\<close> is \<^verbatim>\<open>security\<close>, \<^verbatim>\<open>customer_service.docx\<close> is
  \<^verbatim>\<open>customer_service\<close>, \<^verbatim>\<open>random_notes.docx\<close> is \<^verbatim>\<open>general\<close>, and
  \<^verbatim>\<open>loan_products.docx\<close>, in which \<^verbatim>\<open>product\<close> occurs, is \<^verbatim>\<open>account_info\<close>.
\<close>

theorem infer_document_type_priority:
  "infer_document_type filename = first_match category_table filename
   \<and> infer_document_type ''account_types.docx'' = ''account_info''
   \<and> infer_document_type ''fee_schedule.docx'' = ''fees''
   \<and> infer_document_type ''loan_products.docx'' = ''account_info''
   \<and> infer_document_type ''security_policy.docx'' = ''security''
   \<and> infer_document_type ''customer_service.docx'' = ''customer_service''
   \<and> infer_document_type ''random_notes.docx'' = ''general''"
proof -
  have 1: "infer_document_type ''account_types.docx'' = ''account_info''" by code_simp
  have 2: "infer_document_type ''fee_schedule.docx'' = ''fees''" by code_simp
  have 3: "infer_document_type ''loan_products.docx'' = ''account_info''" by code_simp
  have 4: "infer_document_type ''security_policy.docx'' = ''security''" by code_simp
  have 5: "infer_document_type ''customer_service.docx'' = ''customer_service''" by code_simp
  have 6: "infer_document_type ''random_notes.docx'' = ''general''" by code_simp
  show ?thesis using infer_refines 1 2 3 4 5 6 by blast
qed

text \<open>
  Claim C5, amended, on a name in capitals with \<^verbatim>\<open>loan\<close> and no keyword of an
  earlier group: the table gives \<^verbatim>\<open>loans\<close>.
\<close>

theorem infer_document_type_priority_witness:
  "first_match category_table ''LOAN_Rates.TXT'' = ''loans''"
proof -
  have "infer_document_type ''LOAN_Rates.TXT'' = ''loans''" by code_simp
  then show ?thesis
    using infer_document_type_priority [of "''LOAN_Rates.TXT''"] by simp
qed

text \<open>
  Claim C5 as it is stated fails on its own example \<^verbatim>\<open>loan_products.docx\<close>: the
  name contains \<^verbatim>\<open>product\<close>, a keyword of the first group, so the category is not
  \<^verbatim>\<open>loans\<close>.
\<close>

theorem infer_document_type_loan_products:
  "infer_document_type ''loan_products.docx'' \<noteq> ''loans''"
proof -
  have "infer_document_type ''loan_products.docx'' = ''account_info''" by code_simp
  then show ?thesis by simp
qed

subsection \<open>Processing a directory\<close>

text \<open>
  Claim C7. For a directory path that does not exist, \<^verbatim>\<open>process_directory\<close> raises
  \<^verbatim>\<open>FileNotFoundError\<close> and returns nothing. For a path that exists it returns the
  chunk sequence and the statistics, in which \<^verbatim>\<open>total_chunks\<close> is the number of
  chunks returned.
\<close>

theorem process_directory_result:
  "(\<not> path_exists w d \<longrightarrow>
      process_directory w dp d = Inl (FileNotFoundError (''Directory not found: '' @ d)))
   \<and> (path_exists w d \<longrightarrow>
      (\<exists>chunks st lg. process_directory w dp d = Inr (chunks, st, lg)
         \<and> total_chunks st = int (length chunks)))"
proof -
  let ?st0 = "\<lparr>all_chunks = [], stats = ProcessingStats_init,
                   logs = [(INFO, FoundDocuments (length (find_files w d)))]\<rparr>"
  have "total_chunks (stats (fold (process_file w dp) (find_files w d) ?st0))
     = int (length (all_chunks (fold (process_file w dp) (find_files w d) ?st0)))"
    by (rule fold_process_file_total_chunks) (simp add: ProcessingStats_init_def)
  then show ?thesis
    by (simp add: process_directory_def Let_def)
qed

text \<open>
  Claim C7 in the example world, on the directory \<^verbatim>\<open>docs\<close>, which exists, and on
  \<^verbatim>\<open>nowhere\<close>, which does not.
\<close>

theorem process_directory_result_witness:
  "path_exists (example_world [''loan_rates.txt''] True) ''docs''
   \<and> \<not> path_exists (example_world [''loan_rates.txt''] True) ''nowhere''
   \<and> process_directory (example_world [''loan_rates.txt''] True) example_processor ''nowhere''
       = Inl (FileNotFoundError ''Directory not found: nowhere'')
   \<and> (\<exists>chunks st lg.
         process_directory (example_world [''loan_rates.txt''] True) example_processor ''docs''
           = Inr (chunks, st, lg)
         \<and> total_chunks st = int (length chunks))"
proof -
  have a: "path_exists (example_world [''loan_rates.txt''] True) ''docs''"
    by (simp add: example_world_def)
  have b: "\<not> path_exists (example_world [''loan_rates.txt''] True) ''nowhere''"
    by (simp add: example_world_def)
  show ?thesis
    using a b
      process_directory_result [of "example_world [''loan_rates.txt''] True" "''docs''" example_processor]
      process_directory_result [of "example_world [''loan_rates.txt''] True" "''nowhere''" example_processor]
    by simp
qed

text \<open>
  Claim C3. A document of the batch that fails to load or to segment does not abort the
  batch: \<^verbatim>\<open>process_directory\<close> returns, the chunks and the statistics it returns are
  those of the directory without that document, so the document adds nothing to
  \<^verbatim>\<open>total_documents\<close>, \<^verbatim>\<open>total_chunks\<close> or \<^verbatim>\<open>document_types\<close> and the other
  documents are processed as they are without it, and the log holds an error record for
  the document.
\<close>

theorem batch_isolation:
  assumes "path_exists w d"
    and "joinpath d n \<in> set (find_files w d)"
    and "document_fails w dp (joinpath d n)"
  shows "returned (process_directory w dp d) \<noteq> None
       \<and> returned (process_directory w dp d) = returned (process_directory (without_entry w d n) dp d)
       \<and> list_ex (is_error_for (path_name (joinpath d n))) (logged (process_directory w dp d))"
proof -
  let ?w' = "without_entry w d n"
  let ?ok = "\<lambda>p. \<not> document_fails w dp p"
  let ?st0 = "\<lambda>w. \<lparr>all_chunks = [], stats = ProcessingStats_init,
                   logs = [(INFO, FoundDocuments (length (find_files w d)))]\<rparr>"
  let ?run = "\<lambda>w. fold (process_file w dp) (find_files w d) (?st0 w)"
  have ex: "path_exists ?w' d" using assms(1) by (simp add: without_entry_def)
  have "all_chunks (?run w) = all_chunks (fold (process_file w dp) (filter ?ok (find_files w d)) (?st0 w))
      \<and> stats (?run w) = stats (fold (process_file w dp) (filter ?ok (find_files w d)) (?st0 w))"
    by (rule fold_process_file_skip) simp_all
  moreover have "all_chunks (?run ?w') = all_chunks (fold (process_file w dp) (filter ?ok (find_files ?w' d)) (?st0 w))
      \<and> stats (?run ?w') = stats (fold (process_file w dp) (filter ?ok (find_files ?w' d)) (?st0 w))"
    using fold_process_file_skip [of "?st0 ?w'" "?st0 w" ?w' dp "find_files ?w' d"] by simp
  ultimately have same: "all_chunks (?run w) = all_chunks (?run ?w')" "stats (?run w) = stats (?run ?w')"
    using filter_find_files_without_entry [OF assms(3)] by simp_all
  have rep: "list_ex (is_error_for (path_name (joinpath d n))) (logs (?run w))"
    using assms(3,2) by (rule fold_process_file_reports)
  show ?thesis
    using assms(1) ex same rep
    by (simp add: process_directory_def returned_def logged_def Let_def)
qed

text \<open>
  Claim C3 on three documents of which the second, a PDF file, fails to load: the result
  holds the chunks of the first and the third document and counts two documents.
\<close>

theorem batch_isolation_witness:
  "document_fails (example_world [''account_types.docx'', ''fee_schedule.pdf'', ''loan_rates.txt''] True)
     example_processor ''docs/fee_schedule.pdf''
   \<and> map_option (\<lambda>(chunks, st).
         (map (\<lambda>c. map_of (metadata c) ''filename'') chunks,
          total_documents st, total_chunks st, document_types st))
       (returned (process_directory
          (example_world [''account_types.docx'', ''fee_schedule.pdf'', ''loan_rates.txt''] True)
          example_processor ''docs''))
     = Some ([Some (PyStr ''account_types.docx''), Some (PyStr ''loan_rates.txt'')], 2, 2,
             [(PyStr ''account_info'', 1), (PyStr ''loans'', 1)])
   \<and> returned (process_directory
          (example_world [''account_types.docx'', ''fee_schedule.pdf'', ''loan_rates.txt''] True)
          example_processor ''docs'')
     = returned (process_directory
          (without_entry (example_world [''account_types.docx'', ''fee_schedule.pdf'', ''loan_rates.txt''] True)
             ''docs'' ''fee_schedule.pdf'')
          example_processor ''docs'')
   \<and> list_ex (is_error_for ''fee_schedule.pdf'')
         (logged (process_directory
            (example_world [''account_types.docx'', ''fee_schedule.pdf'', ''loan_rates.txt''] True)
            example_processor ''docs''))"
proof -
  let ?w = "example_world [''account_types.docx'', ''fee_schedule.pdf'', ''loan_rates.txt''] True"
  have 1: "path_exists ?w ''docs''"
    by (simp add: example_world_def)
  have 2: "joinpath ''docs'' ''fee_schedule.pdf'' \<in> set (find_files ?w ''docs'')"
    by code_simp
  have 3: "document_fails ?w example_processor (joinpath ''docs'' ''fee_schedule.pdf'')"
    by code_simp
  have j: "joinpath ''docs'' ''fee_schedule.pdf'' = ''docs/fee_schedule.pdf''"
    by code_simp
  have n: "path_name ''docs/fee_schedule.pdf'' = ''fee_schedule.pdf''"
    by code_simp
  have v: "map_option (\<lambda>(chunks, st).
         (map (\<lambda>c. map_of (metadata c) ''filename'') chunks,
          total_documents st, total_chunks st, document_types st))
       (returned (process_directory ?w example_processor ''docs''))
     = Some ([Some (PyStr ''account_types.docx''), Some (PyStr ''loan_rates.txt'')], 2, 2,
             [(PyStr ''account_info'', 1), (PyStr ''loans'', 1)])"
    by code_simp
  show ?thesis
    using batch_isolation [OF 1 2 3] 3 v unfolding j n by blast
qed

text \<open>
  Claim C10. A file of the batch that loads to a non-empty document sequence and whose
  chunk sequence is empty is counted in \<^verbatim>\<open>total_documents\<close> and in nothing else:
  the result is the one of the directory without the file with \<^verbatim>\<open>total_documents\<close>
  one higher, so the chunks, \<^verbatim>\<open>total_chunks\<close> and \<^verbatim>\<open>document_types\<close> are the
  same, and the log reports the file as failed with the \<^verbatim>\<open>IndexError\<close> of
  \<^verbatim>\<open>chunks[0]\<close>.
\<close>

theorem statistics_not_atomic:
  assumes "path_exists w d"
    and "count_list (find_files w d) (joinpath d n) = 1"
    and "fst (load_document w (joinpath d n)) \<noteq> []"
    and "text_splitter dp (fst (load_document w (joinpath d n))) = Inr []"
  shows "returned (process_directory w dp d)
           = map_option (\<lambda>(chunks, st). (chunks, st\<lparr>total_documents := total_documents st + 1\<rparr>))
               (returned (process_directory (without_entry w d n) dp d))
       \<and> returned (process_directory w dp d) \<noteq> None
       \<and> (ERROR, FailedToProcess (path_name (joinpath d n)) (IndexError ''list index out of range''))
            \<in> set (logged (process_directory w dp d))"
proof -
  let ?p = "joinpath d n"
  let ?w' = "without_entry w d n"
  let ?st0 = "\<lambda>w. \<lparr>all_chunks = [], stats = ProcessingStats_init,
                   logs = [(INFO, FoundDocuments (length (find_files w d)))]\<rparr>"
  let ?run = "\<lambda>w. fold (process_file w dp) (find_files w d) (?st0 w)"
  have ex: "path_exists ?w' d" using assms(1) by (simp add: without_entry_def)
  have mem: "?p \<in> set (find_files w d)"
    using assms(2) count_list_0_iff [of "find_files w d" ?p] by auto
  have a: "all_chunks (?run w) = all_chunks (fold (process_file w dp) (find_files ?w' d) (?st0 w))
      \<and> stats (?run w) = stats (count_document (fold (process_file w dp) (find_files ?w' d) (?st0 w)))"
    using fold_process_file_no_chunks [OF assms(3,4,2)] by (simp add: find_files_without_entry)
  have b: "all_chunks (fold (process_file w dp) (find_files ?w' d) (?st0 w)) = all_chunks (?run ?w')
      \<and> stats (fold (process_file w dp) (find_files ?w' d) (?st0 w)) = stats (?run ?w')"
    using fold_process_file_skip [of "?st0 w" "?st0 ?w'" w dp "find_files ?w' d"]
      fold_process_file_skip [OF refl refl, of w dp "find_files ?w' d" "?st0 ?w'"]
    by simp
  from a b have same: "all_chunks (?run w) = all_chunks (?run ?w')"
    "stats (?run w) = (stats (?run ?w'))\<lparr>total_documents := total_documents (stats (?run ?w')) + 1\<rparr>"
    by (simp_all add: count_document_def)
  have rep: "(ERROR, FailedToProcess (path_name ?p) (IndexError ''list index out of range''))
      \<in> set (logs (?run w))"
    using mem process_file_no_chunks(3) [OF assms(3,4)] process_file_no_chunks_logs [OF assms(3,4)]
    by (intro fold_process_file_last_log) auto
  show ?thesis
    using assms(1) ex same rep
    by (simp add: process_directory_def returned_def logged_def Let_def)
qed

text \<open>
  Claim C10 on a directory with a Word file and a text file without text: two documents
  are counted, one chunk and one category.
\<close>

theorem statistics_not_atomic_witness:
  "fst (load_document (example_world [''account_types.docx'', ''empty.txt''] True) ''docs/empty.txt'') \<noteq> []
   \<and> text_splitter example_processor
        (fst (load_document (example_world [''account_types.docx'', ''empty.txt''] True) ''docs/empty.txt''))
       = Inr []
   \<and> map_option (\<lambda>(chunks, st).
         (length chunks, total_documents st, total_chunks st, document_types st))
       (returned (process_directory (example_world [''account_types.docx'', ''empty.txt''] True)
          example_processor ''docs''))
     = Some (1, 2, 1, [(PyStr ''account_info'', 1)])
   \<and> returned (process_directory (example_world [''account_types.docx'', ''empty.txt''] True)
        example_processor ''docs'')
     = map_option (\<lambda>(chunks, st). (chunks, st\<lparr>total_documents := total_documents st + 1\<rparr>))
         (returned (process_directory
            (without_entry (example_world [''account_types.docx'', ''empty.txt''] True) ''docs'' ''empty.txt'')
            example_processor ''docs''))
   \<and> (ERROR, FailedToProcess ''empty.txt'' (IndexError ''list index out of range''))
        \<in> set (logged (process_directory (example_world [''account_types.docx'', ''empty.txt''] True)
             example_processor ''docs''))"
proof -
  let ?w = "example_world [''account_types.docx'', ''empty.txt''] True"
  have j: "joinpath ''docs'' ''empty.txt'' = ''docs/empty.txt''"
    by code_simp
  have n: "path_name ''docs/empty.txt'' = ''empty.txt''"
    by code_simp
  have 1: "path_exists ?w ''docs''"
    by (simp add: example_world_def)
  have 2: "count_list (find_files ?w ''docs'') (joinpath ''docs'' ''empty.txt'') = 1"
    by code_simp
  have 3: "fst (load_document ?w (joinpath ''docs'' ''empty.txt'')) \<noteq> []"
    by code_simp
  have 4: "text_splitter example_processor (fst (load_document ?w (joinpath ''docs'' ''empty.txt''))) = Inr []"
    by code_simp
  have v: "map_option (\<lambda>(chunks, st).
         (length chunks, total_documents st, total_chunks st, document_types st))
       (returned (process_directory ?w example_processor ''docs''))
     = Some (1, 2, 1, [(PyStr ''account_info'', 1)])"
    by code_simp
  show ?thesis
    using statistics_not_atomic [OF 1 2 3 4] 3 4 v unfolding j n by blast
qed

text \<open>
  Claim C8, amended. An entry of the directory whose name ends with \<^verbatim>\<open>.docx\<close>,
  \<^verbatim>\<open>.pdf\<close> or \<^verbatim>\<open>.txt\<close> as written is one of the files the scan finds. An entry
  whose name, put in lower case, ends with none of them is not found, and
  \<^verbatim>\<open>process_directory\<close> returns what it returns for the directory without the entry,
  log included: the scan raises nothing and logs nothing for it. The warning belongs to
  \<^verbatim>\<open>load_document\<close>, which reads the extension without regard to letter case,
  hands the file to the loader of its extension, and for any other extension returns no
  documents and logs a warning.
\<close>

theorem directory_scan_extensions:
  "(n \<in> set (scandir w d) \<and> supported_name n \<longrightarrow> joinpath d n \<in> set (find_files w d))
   \<and> (\<not> supported_name (lower n) \<longrightarrow>
        joinpath d n \<notin> set (find_files w d)
        \<and> process_directory (without_entry w d n) dp d = process_directory w dp d)
   \<and> (lower (path_suffix p) = ''.docx'' \<longrightarrow> load_document w p = run_loader (Docx2txtLoader w) p)
   \<and> (lower (path_suffix p) = ''.pdf'' \<longrightarrow> load_document w p = run_loader (PyPDFLoader w) p)
   \<and> (lower (path_suffix p) = ''.txt'' \<longrightarrow> load_document w p = run_loader (TextLoader w) p)
   \<and> (lower (path_suffix p) \<notin> set supported_extensions \<longrightarrow>
        load_document w p = ([], [(WARNING, UnsupportedFileType (lower (path_suffix p)))]))"
proof (intro conjI impI)
  assume "n \<in> set (scandir w d) \<and> supported_name n"
  then show "joinpath d n \<in> set (find_files w d)"
    by (simp add: scan_includes)
next
  assume "\<not> supported_name (lower n)"
  then show "joinpath d n \<notin> set (find_files w d)"
    by (rule scan_not_member)
next
  assume "\<not> supported_name (lower n)"
  then show "process_directory (without_entry w d n) dp d = process_directory w dp d"
    by (rule process_directory_excluded)
next
  assume "lower (path_suffix p) = ''.docx''"
  then show "load_document w p = run_loader (Docx2txtLoader w) p"
    by (simp add: load_document_supported)
next
  assume "lower (path_suffix p) = ''.pdf''"
  then show "load_document w p = run_loader (PyPDFLoader w) p"
    by (simp add: load_document_supported)
next
  assume "lower (path_suffix p) = ''.txt''"
  then show "load_document w p = run_loader (TextLoader w) p"
    by (simp add: load_document_supported)
next
  assume "lower (path_suffix p) \<notin> set supported_extensions"
  then show "load_document w p = ([], [(WARNING, UnsupportedFileType (lower (path_suffix p)))])"
    by (rule load_document_unsupported)
qed

text \<open>
  Claim C8, amended, in a directory with a Word file and a Markdown file, and on two
  paths outside it: a text file with its extension in capitals, which
  \<^verbatim>\<open>load_document\<close> reads, and a Markdown file, for which it warns.
\<close>

theorem directory_scan_extensions_witness:
  "''docs/fee_schedule.docx'' \<in> set (find_files (example_world [''fee_schedule.docx'', ''notes.md''] True) ''docs'')
   \<and> ''docs/notes.md'' \<notin> set (find_files (example_world [''fee_schedule.docx'', ''notes.md''] True) ''docs'')
   \<and> process_directory (without_entry (example_world [''fee_schedule.docx'', ''notes.md''] True) ''docs'' ''notes.md'')
         example_processor ''docs''
       = process_directory (example_world [''fee_schedule.docx'', ''notes.md''] True) example_processor ''docs''
   \<and> load_document (example_world [] True) ''docs/REPORT.TXT''
       = ([\<lparr>page_content = ''Wire transfer fee'', metadata = [(''source'', PyStr ''docs/REPORT.TXT'')]\<rparr>],
          [(INFO, LoadedPages 1 ''REPORT.TXT'')])
   \<and> load_document (example_world [] True) ''docs/notes.md'' = ([], [(WARNING, UnsupportedFileType ''.md'')])"
proof -
  let ?w = "example_world [''fee_schedule.docx'', ''notes.md''] True"
  have 1: "''fee_schedule.docx'' \<in> set (scandir ?w ''docs'') \<and> supported_name ''fee_schedule.docx''"
    by code_simp
  have 2: "\<not> supported_name (lower ''notes.md'')"
    by code_simp
  have 3: "lower (path_suffix ''docs/REPORT.TXT'') = ''.txt''"
    by code_simp
  have 4: "lower (path_suffix ''docs/notes.md'') \<notin> set supported_extensions"
    by code_simp
  have j: "joinpath ''docs'' ''fee_schedule.docx'' = ''docs/fee_schedule.docx''"
    "joinpath ''docs'' ''notes.md'' = ''docs/notes.md''"
    by code_simp+
  have r: "run_loader (TextLoader (example_world [] True)) ''docs/REPORT.TXT''
      = ([\<lparr>page_content = ''Wire transfer fee'', metadata = [(''source'', PyStr ''docs/REPORT.TXT'')]\<rparr>],
          [(INFO, LoadedPages 1 ''REPORT.TXT'')])"
    by code_simp
  have s: "lower (path_suffix ''docs/notes.md'') = ''.md''"
    by code_simp
  from directory_scan_extensions [of "''fee_schedule.docx''" ?w "''docs''" example_processor "''docs/REPORT.TXT''"] 1
  have a: "''docs/fee_schedule.docx'' \<in> set (find_files ?w ''docs'')"
    unfolding j by blast
  from directory_scan_extensions [of "''notes.md''" ?w "''docs''" example_processor "''docs/REPORT.TXT''"] 2
  have b: "''docs/notes.md'' \<notin> set (find_files ?w ''docs'')"
    "process_directory (without_entry ?w ''docs'' ''notes.md'') example_processor ''docs''
       = process_directory ?w example_processor ''docs''"
    unfolding j by blast+
  from directory_scan_extensions [of "''notes.md''" "example_world [] True" "''docs''" example_processor "''docs/REPORT.TXT''"] 3 r
  have c: "load_document (example_world [] True) ''docs/REPORT.TXT''
       = ([\<lparr>page_content = ''Wire transfer fee'', metadata = [(''source'', PyStr ''docs/REPORT.TXT'')]\<rparr>],
          [(INFO, LoadedPages 1 ''REPORT.TXT'')])"
    by simp
  from directory_scan_extensions [of "''notes.md''" "example_world [] True" "''docs''" example_processor "''docs/notes.md''"] 4 s
  have e: "load_document (example_world [] True) ''docs/notes.md'' = ([], [(WARNING, UnsupportedFileType ''.md'')])"
    by simp
  from a b c e show ?thesis by blast
qed

text \<open>
  Claim C8 as it is stated fails twice. Where file names are matched with regard to letter
  case, the scan does not find \<^verbatim>\<open>REPORT.TXT\<close>; and for \<^verbatim>\<open>notes.md\<close>, which
  it leaves out on every platform, the log of \<^verbatim>\<open>process_directory\<close> holds no warning.
\<close>

theorem directory_scan_counterexample:
  "''REPORT.TXT'' \<in> set (scandir (example_world [''REPORT.TXT'', ''notes.md''] True) ''docs'')
   \<and> joinpath ''docs'' ''REPORT.TXT'' \<notin> set (find_files (example_world [''REPORT.TXT'', ''notes.md''] True) ''docs'')
   \<and> logged (process_directory (example_world [''REPORT.TXT'', ''notes.md''] True) example_processor ''docs'')
       = [(INFO, FoundDocuments 0), (INFO, ProcessingComplete 0 0)]
   \<and> logged (process_directory (example_world [''notes.md''] False) example_processor ''docs'')
       = [(INFO, FoundDocuments 0), (INFO, ProcessingComplete 0 0)]"
  by code_simp

subsection \<open>Construction\<close>

text \<open>
  Claim C6, amended. For every configuration with a chunk size that is not positive, a
  negative overlap or an overlap larger than the chunk size, the construction of the
  processor fails at once with the \<^verbatim>\<open>ValueError\<close> of the splitter's constructor,
  which the processor lets through. Every other configuration, an overlap equal to the
  chunk size among them, is accepted, and the processor holds the two sizes as they were
  given and the splitter constructed from them: nothing is clamped.
\<close>

theorem DocumentProcessor_init_fails_fast:
  "(csize \<le> 0 \<or> coverlap < 0 \<or> csize < coverlap \<longrightarrow>
      (\<exists>msg. TextSplitter_init csize coverlap separators = Inl (ValueError msg)
         \<and> DocumentProcessor_init TextSplitter_init csize coverlap = Inl (ValueError msg)))
   \<and> (\<not> (csize \<le> 0 \<or> coverlap < 0 \<or> csize < coverlap) \<longrightarrow>
      DocumentProcessor_init TextSplitter_init csize coverlap
        = Inr (\<lparr>chunk_size = csize, chunk_overlap = coverlap,
                text_splitter = split_documents (nat csize) (nat coverlap) separators\<rparr>,
               [(INFO, Initialized csize coverlap)]))"
  by (simp add: DocumentProcessor_init_def TextSplitter_init_def)

text \<open>
  Claim C6, amended, on three configurations: a chunk size of 0 and an overlap of 200
  for a chunk size of 100 are rejected, each with its message; 1000 and 200 are stored.
\<close>

theorem DocumentProcessor_init_fails_fast_witness:
  "DocumentProcessor_init TextSplitter_init 0 0
     = Inl (ValueError ''chunk_size must be > 0, got 0'')
   \<and> DocumentProcessor_init TextSplitter_init 100 200
     = Inl (ValueError ''Got a larger chunk overlap (200) than chunk size (100), should be smaller.'')
   \<and> DocumentProcessor_init TextSplitter_init 1000 200
     = Inr (\<lparr>chunk_size = 1000, chunk_overlap = 200,
             text_splitter = split_documents (nat 1000) (nat 200) separators\<rparr>,
            [(INFO, Initialized 1000 200)])"
proof -
  have n: "str_int 0 = ''0''" "str_int 100 = ''100''" "str_int 200 = ''200''"
    by code_simp+
  have a: "TextSplitter_init 0 0 separators = Inl (ValueError ''chunk_size must be > 0, got 0'')"
    by (simp add: TextSplitter_init_def n)
  have b: "TextSplitter_init 100 200 separators
      = Inl (ValueError ''Got a larger chunk overlap (200) than chunk size (100), should be smaller.'')"
    by (simp add: TextSplitter_init_def n)
  have h0: "(0 :: int) \<le> 0 \<or> (0 :: int) < 0 \<or> (0 :: int) < 0"
    by simp
  have h1: "(100 :: int) \<le> 0 \<or> (200 :: int) < 0 \<or> (100 :: int) < 200"
    by simp
  have h2: "\<not> ((1000 :: int) \<le> 0 \<or> (200 :: int) < 0 \<or> (1000 :: int) < 200)"
    by simp
  from DocumentProcessor_init_fails_fast [of 0 0] h0 a
  have r0: "DocumentProcessor_init TextSplitter_init 0 0
      = Inl (ValueError ''chunk_size must be > 0, got 0'')"
    by auto
  from DocumentProcessor_init_fails_fast [of 100 200] h1 b
  have r1: "DocumentProcessor_init TextSplitter_init 100 200
      = Inl (ValueError ''Got a larger chunk overlap (200) than chunk size (100), should be smaller.'')"
    by auto
  from DocumentProcessor_init_fails_fast [of 1000 200] h2
  have r2: "DocumentProcessor_init TextSplitter_init 1000 200
      = Inr (\<lparr>chunk_size = 1000, chunk_overlap = 200,
             text_splitter = split_documents (nat 1000) (nat 200) separators\<rparr>,
            [(INFO, Initialized 1000 200)])"
    by blast
  from r0 r1 r2 show ?thesis by (intro conjI)
qed

text \<open>
  Claim C6 as it is stated fails for an overlap equal to the chunk size: 1000 is not
  smaller than 1000, and the construction goes through.
\<close>

theorem DocumentProcessor_init_accepts:
  "(1000 :: int) \<ge> 1000
   \<and> DocumentProcessor_init TextSplitter_init 1000 1000
       = Inr (\<lparr>chunk_size = 1000, chunk_overlap = 1000,
               text_splitter = split_documents (nat 1000) (nat 1000) separators\<rparr>,
              [(INFO, Initialized 1000 1000)])"
  by (simp add: DocumentProcessor_init_def TextSplitter_init_def)

subsection \<open>Segmentation\<close>

text \<open>
  Claim C1, for the splitter of the specification. \<^verbatim>\<open>chunk_documents\<close> returns, and
  the content of every chunk it returns is no longer than \<^verbatim>\<open>chunk_size\<close>, except
  that a chunk may be a single character that exceeds the bound; with a bound of at
  least 1 there is no such chunk.
\<close>

theorem chunk_size_bound:
  "\<exists>chunks lg.
     chunk_documents (configured_processor bound overlap) documents = Inr (chunks, lg)
     \<and> (\<forall>c \<in> set chunks.
           int (length (page_content c)) \<le> chunk_size (configured_processor bound overlap)
           \<or> length (page_content c) = 1)
     \<and> (0 < bound \<longrightarrow>
          (\<forall>c \<in> set chunks.
             int (length (page_content c)) \<le> chunk_size (configured_processor bound overlap)))"
proof -
  let ?chunks = "concat (map (\<lambda>d. map (\<lambda>s. \<lparr>page_content = s, metadata = metadata d\<rparr>)
                                  (split_text bound overlap separators (page_content d)))
                    documents)"
  have w: "within_bound bound (page_content c)" if "c \<in> set ?chunks" for c
    using that split_text_within by auto
  have cs: "chunk_size (configured_processor bound overlap) = int bound"
    by (simp add: configured_processor_def)
  have a: "\<forall>c \<in> set ?chunks. int (length (page_content c)) \<le> int bound \<or> length (page_content c) = 1"
    using w by (simp add: within_bound_def)
  have b: "0 < bound \<longrightarrow> (\<forall>c \<in> set ?chunks. int (length (page_content c)) \<le> int bound)"
  proof (intro impI ballI)
    fix c assume "0 < bound" "c \<in> set ?chunks"
    with w [of c] show "int (length (page_content c)) \<le> int bound"
      by (auto simp: within_bound_def)
  qed
  show ?thesis
    unfolding chunk_documents_configured cs
    using a b by blast
qed

text \<open>
  Claim C1 on the example document with a bound of 20 and an overlap of 8: four chunks,
  of 18, 20, 20 and 16 characters.
\<close>

theorem chunk_size_bound_witness:
  "\<exists>chunks lg.
     chunk_documents (configured_processor 20 8) [example_document] = Inr (chunks, lg)
     \<and> map page_content chunks
         = [''Savings pay 3.2%. '',
            ''y 3.2%. Fees apply'' @ [CHR 0x0A, CHR 0x0A],
            [CHR ''y'', CHR 0x0A, CHR 0x0A] @ ''Loans: see desk. '',
            ''e desk. Call us.'']
     \<and> (\<forall>c \<in> set chunks. int (length (page_content c)) \<le> 20)"
proof -
  have cs: "chunk_size (configured_processor 20 8) = 20"
    by (simp add: configured_processor_def)
  have v: "map_sum id (map page_content \<circ> fst)
             (chunk_documents (configured_processor 20 8) [example_document])
      = Inr [''Savings pay 3.2%. '',
            ''y 3.2%. Fees apply'' @ [CHR 0x0A, CHR 0x0A],
            [CHR ''y'', CHR 0x0A, CHR 0x0A] @ ''Loans: see desk. '',
            ''e desk. Call us.'']"
    by code_simp
  from chunk_size_bound [of 20 8 "[example_document]"]
  obtain chunks lg where
    r: "chunk_documents (configured_processor 20 8) [example_document] = Inr (chunks, lg)"
    and b: "\<forall>c \<in> set chunks. int (length (page_content c)) \<le> chunk_size (configured_processor 20 8)"
    by auto
  from v r have "map page_content chunks
         = [''Savings pay 3.2%. '',
            ''y 3.2%. Fees apply'' @ [CHR 0x0A, CHR 0x0A],
            [CHR ''y'', CHR 0x0A, CHR 0x0A] @ ''Loans: see desk. '',
            ''e desk. Call us.'']"
    by simp
  with r b cs show ?thesis by auto
qed

text \<open>
  Claim C2, for the splitter of the specification. The chunks of a document are as many
  as the segments into which section 4.2 cuts its text, which joined give the text. The
  first chunk is the first segment, with no overlap before it. Every later chunk is its
  segment with a span \<open>p\<close> before it that is the end of the chunk before, so \<open>p\<close> is
  the text the two chunks share, and \<open>p\<close> is no longer than \<^verbatim>\<open>chunk_overlap\<close>.
\<close>

theorem overlap_bound:
  "\<exists>chunks lg.
     chunk_documents (configured_processor bound overlap) [d] = Inr (chunks, lg)
     \<and> concat (segment bound separators (page_content d)) = page_content d
     \<and> length chunks = length (segment bound separators (page_content d))
     \<and> (chunks \<noteq> [] \<longrightarrow>
          page_content (hd chunks) = hd (segment bound separators (page_content d)))
     \<and> (\<forall>i. Suc i < length chunks \<longrightarrow>
          (\<exists>p. page_content (chunks ! Suc i) = p @ segment bound separators (page_content d) ! Suc i
             \<and> suffix p (page_content (chunks ! i))
             \<and> int (length p) \<le> chunk_overlap (configured_processor bound overlap)))"
proof -
  let ?orig = "segment bound separators (page_content d)"
  let ?out = "add_overlap bound overlap ?orig"
  let ?chunks = "map (\<lambda>s. \<lparr>page_content = s, metadata = metadata d\<rparr>) ?out"
  have run: "chunk_documents (configured_processor bound overlap) [d]
      = Inr (?chunks, [(INFO, SplitDocuments 1 (length ?chunks))])"
    by (simp add: chunk_documents_configured split_text_def)
  have co: "chunk_overlap (configured_processor bound overlap) = int overlap"
    by (simp add: configured_processor_def)
  have first: "?chunks \<noteq> [] \<longrightarrow> page_content (hd ?chunks) = hd ?orig"
    by (cases ?orig) simp_all
  have step: "\<exists>p. page_content (?chunks ! Suc i) = p @ ?orig ! Suc i
             \<and> suffix p (page_content (?chunks ! i)) \<and> int (length p) \<le> int overlap"
    if "Suc i < length ?chunks" for i
  proof -
    from that have i: "Suc i < length ?orig" "i < length ?orig"
      by (simp_all add: length_add_overlap)
    let ?p = "overlap_tail bound overlap (?orig ! i) (?orig ! Suc i)"
    have "page_content (?chunks ! Suc i) = ?p @ ?orig ! Suc i"
      using i by (simp add: length_add_overlap add_overlap_next)
    moreover have "suffix ?p (?out ! i)"
      using overlap_tail_suffix add_overlap_suffix [OF i(2)] suffix_order.trans by blast
    then have "suffix ?p (page_content (?chunks ! i))"
      using i by (simp add: length_add_overlap)
    moreover have "int (length ?p) \<le> int overlap"
      by (simp add: overlap_tail_length)
    ultimately show ?thesis by blast
  qed
  show ?thesis
    unfolding run co
    using first step by (simp add: length_add_overlap concat_segment)
qed

text \<open>
  Claim C2 on the example document with a bound of 20 and an overlap of 8: the second
  chunk starts with the last 8 characters of the first, the third with the last 3 of the
  second, for which the bound leaves no more room, and the first chunk is the first
  segment.
\<close>

theorem overlap_bound_witness:
  "segment 20 separators (page_content example_document)
     = [''Savings pay 3.2%. '', ''Fees apply'' @ [CHR 0x0A, CHR 0x0A], ''Loans: see desk. '', ''Call us.'']
   \<and> (\<exists>chunks lg.
        chunk_documents (configured_processor 20 8) [example_document] = Inr (chunks, lg)
        \<and> map page_content chunks
            = [''Savings pay 3.2%. '',
               ''y 3.2%. '' @ ''Fees apply'' @ [CHR 0x0A, CHR 0x0A],
               [CHR ''y'', CHR 0x0A, CHR 0x0A] @ ''Loans: see desk. '',
               ''e desk. '' @ ''Call us.'']
        \<and> (\<forall>i. Suc i < length chunks \<longrightarrow>
             (\<exists>p. page_content (chunks ! Suc i)
                    = p @ segment 20 separators (page_content example_document) ! Suc i
                \<and> suffix p (page_content (chunks ! i)) \<and> int (length p) \<le> 8)))"
proof -
  have co: "chunk_overlap (configured_processor 20 8) = 8"
    by (simp add: configured_processor_def)
  have s: "segment 20 separators (page_content example_document)
     = [''Savings pay 3.2%. '', ''Fees apply'' @ [CHR 0x0A, CHR 0x0A], ''Loans: see desk. '', ''Call us.'']"
    by code_simp
  have v: "map_sum id (map page_content \<circ> fst)
             (chunk_documents (configured_processor 20 8) [example_document])
      = Inr [''Savings pay 3.2%. '',
               ''y 3.2%. '' @ ''Fees apply'' @ [CHR 0x0A, CHR 0x0A],
               [CHR ''y'', CHR 0x0A, CHR 0x0A] @ ''Loans: see desk. '',
               ''e desk. '' @ ''Call us.'']"
    by code_simp
  from overlap_bound [of 20 8 example_document]
  obtain chunks lg where
    r: "chunk_documents (configured_processor 20 8) [example_document] = Inr (chunks, lg)"
    and b: "\<forall>i. Suc i < length chunks \<longrightarrow>
          (\<exists>p. page_content (chunks ! Suc i)
                  = p @ segment 20 separators (page_content example_document) ! Suc i
             \<and> suffix p (page_content (chunks ! i))
             \<and> int (length p) \<le> chunk_overlap (configured_processor 20 8))"
    by blast
  from v r have m: "map page_content chunks
            = [''Savings pay 3.2%. '',
               ''y 3.2%. '' @ ''Fees apply'' @ [CHR 0x0A, CHR 0x0A],
               [CHR ''y'', CHR 0x0A, CHR 0x0A] @ ''Loans: see desk. '',
               ''e desk. '' @ ''Call us.'']"
    by simp
  from b have b': "\<forall>i. Suc i < length chunks \<longrightarrow>
          (\<exists>p. page_content (chunks ! Suc i)
                  = p @ segment 20 separators (page_content example_document) ! Suc i
             \<and> suffix p (page_content (chunks ! i)) \<and> int (length p) \<le> 8)"
    unfolding co .
  show ?thesis
  proof (intro conjI exI)
    show "segment 20 separators (page_content example_document)
       = [''Savings pay 3.2%. '', ''Fees apply'' @ [CHR 0x0A, CHR 0x0A], ''Loans: see desk. '', ''Call us.'']"
      by (rule s)
    show "chunk_documents (configured_processor 20 8) [example_document] = Inr (chunks, lg)"
      by (rule r)
    show "map page_content chunks
            = [''Savings pay 3.2%. '',
               ''y 3.2%. '' @ ''Fees apply'' @ [CHR 0x0A, CHR 0x0A],
               [CHR ''y'', CHR 0x0A, CHR 0x0A] @ ''Loans: see desk. '',
               ''e desk. '' @ ''Call us.'']"
      by (rule m)
    show "\<forall>i. Suc i < length chunks \<longrightarrow>
          (\<exists>p. page_content (chunks ! Suc i)
                  = p @ segment 20 separators (page_content example_document) ! Suc i
             \<and> suffix p (page_content (chunks ! i)) \<and> int (length p) \<le> 8)"
      by (rule b')
  qed
qed

end
